theory Spec2Isabelle
  imports Main "HOL-Library.Sublist" "HOL-Library.AList"
begin

section \<open>Python strings\<close>

text \<open>
  A Python \<open>str\<close> is a sequence of code points. It is modelled by \<^typ>\<open>string\<close>; a
  \<^typ>\<open>char\<close> stands for the code point of the same number, so the model covers the
  texts whose code points lie in U+0000..U+00FF. The character classes below are the
  ones CPython uses, cut down to that range.
\<close>

definition is_digit :: "char \<Rightarrow> bool" where
  \<comment> \<open>\<open>\d\<close> of the \<open>re\<close> module on a \<open>str\<close> pattern: the decimal digits.\<close>
  "is_digit c = (c \<in> set ''0123456789'')"

definition is_space :: "char \<Rightarrow> bool" where
  \<comment> \<open>the characters \<open>str.strip()\<close> removes: TAB, LF, VT, FF, CR, FS, GS, RS, US, SPACE, NEL, NBSP.\<close>
  "is_space c = ((of_char c :: nat) \<in> {9, 10, 11, 12, 13, 28, 29, 30, 31, 32, 133, 160})"

definition is_linebreak :: "char \<Rightarrow> bool" where
  \<comment> \<open>the line boundaries of \<open>str.splitlines()\<close>: LF, VT, FF, CR, FS, GS, RS, NEL.\<close>
  "is_linebreak c = ((of_char c :: nat) \<in> {10, 11, 12, 13, 28, 29, 30, 133})"

definition py_strip :: "string \<Rightarrow> string" where
  \<comment> \<open>\<open>s.strip()\<close>\<close>
  "py_strip s = rev (dropWhile is_space (rev (dropWhile is_space s)))"

definition endswith :: "string \<Rightarrow> string \<Rightarrow> bool" where
  \<comment> \<open>\<open>s.endswith(suf)\<close>\<close>
  "endswith s suf = prefix (rev suf) (rev s)"

fun py_in :: "string \<Rightarrow> string \<Rightarrow> bool" where
  \<comment> \<open>\<open>sub in s\<close>: \<open>sub\<close> occurs in \<open>s\<close> at some position.\<close>
  "py_in sub [] = prefix sub []"
| "py_in sub (c # cs) = (prefix sub (c # cs) \<or> py_in sub cs)"

fun split_first :: "string \<Rightarrow> string \<Rightarrow> string list" where
  \<comment> \<open>\<open>s.split(sep, 1)\<close> for a non-empty \<open>sep\<close>: cut at the leftmost occurrence of
      \<open>sep\<close>, or the whole string in a one-element list when there is none.\<close>
  "split_first sep [] = [[]]"
| "split_first sep (c # cs) =
     (if prefix sep (c # cs) then [[], drop (length sep) (c # cs)]
      else (case split_first sep cs of
              [u, v] \<Rightarrow> [c # u, v]
            | _ \<Rightarrow> [c # cs]))"

fun splitlines_from :: "string \<Rightarrow> string \<Rightarrow> string list" where
  \<comment> \<open>the scan of \<open>str.splitlines()\<close>; the first argument is the current line so far,
      reversed. CR LF counts as one boundary, and no empty line follows a final
      boundary.\<close>
  "splitlines_from cur [] = (if cur = [] then [] else [rev cur])"
| "splitlines_from cur [c] = (if is_linebreak c then [rev cur] else [rev (c # cur)])"
| "splitlines_from cur (c # c' # cs) =
     (if is_linebreak c then
        rev cur # (if c = CHR 0x0D \<and> c' = CHR 0x0A then splitlines_from [] cs
                   else splitlines_from [] (c' # cs))
      else splitlines_from (c # cur) (c' # cs))"

definition splitlines :: "string \<Rightarrow> string list" where
  "splitlines s = splitlines_from [] s"


section \<open>Exceptions and values\<close>

text \<open>
  The exception classes the handlers tell apart, each with the text of its message.
  \<open>HTTPException code description\<close> is what \<open>abort(code, description=...)\<close> raises;
  it is a subclass of \<open>Exception\<close>, like every class here.
\<close>

datatype exn =
    HTTPException nat string
  | SQLAlchemyError string
  | BSONDecodeError string
  | FileNotFoundError string
  | ValueError string
  | TypeError string
  | AttributeError string
  | OverflowError string
  | OtherException string

function str_of_nat :: "nat \<Rightarrow> string" where
  \<comment> \<open>\<open>str(n)\<close> of a non-negative integer\<close>
  "str_of_nat n =
     (if n < 10 then [''0123456789'' ! n]
      else str_of_nat (n div 10) @ [''0123456789'' ! (n mod 10)])"
  by pat_completeness auto
termination
  by (relation "measure id") auto

declare str_of_nat.simps [simp del]

definition http_name :: "nat \<Rightarrow> string" where
  \<comment> \<open>the reason phrases of the status codes this program meets: the ones it aborts
      with, and the 415 of a request whose body is not declared as JSON\<close>
  "http_name code =
     (if code = 400 then ''Bad Request''
      else if code = 404 then ''Not Found''
      else if code = 415 then ''Unsupported Media Type''
      else if code = 500 then ''Internal Server Error''
      else ''Unknown Error'')"

fun exn_str :: "exn \<Rightarrow> string" where
  \<comment> \<open>\<open>str(e)\<close>\<close>
  "exn_str (HTTPException code d) = str_of_nat code @ '' '' @ http_name code @ '': '' @ d"
| "exn_str (SQLAlchemyError m) = m"
| "exn_str (BSONDecodeError m) = m"
| "exn_str (FileNotFoundError m) = m"
| "exn_str (ValueError m) = m"
| "exn_str (TypeError m) = m"
| "exn_str (AttributeError m) = m"
| "exn_str (OverflowError m) = m"
| "exn_str (OtherException m) = m"

fun is_SQLAlchemyError :: "exn \<Rightarrow> bool" where
  "is_SQLAlchemyError (SQLAlchemyError m) = True"
| "is_SQLAlchemyError e = False"

datatype json =
    JNull
  | JBool bool
  | JInt int
  | JStr string
  | JArr "json list"
  | JObj "(string \<times> json) list"

fun truthy :: "json \<Rightarrow> bool" where
  \<comment> \<open>the truth value Python gives a decoded JSON value (\<open>not keys\<close> is its negation)\<close>
  "truthy JNull = False"
| "truthy (JBool b) = b"
| "truthy (JInt i) = (i \<noteq> 0)"
| "truthy (JStr s) = (s \<noteq> [])"
| "truthy (JArr xs) = (xs \<noteq> [])"
| "truthy (JObj ps) = (ps \<noteq> [])"

fun is_list :: "json \<Rightarrow> bool" where
  \<comment> \<open>\<open>isinstance(v, list)\<close>\<close>
  "is_list (JArr xs) = True"
| "is_list v = False"

type_synonym response = "json \<times> nat"

text \<open>
  A response is the pair a view returns: the body handed to \<open>jsonify\<close> (a JSON value
  with numbers restricted to integers) and the HTTP status.
\<close>

section \<open>parse_filename\<close>

text \<open>
  The pattern \<open>Pandora(\d+)s(\d+)_CF_v(\d+)d(\d{8})\.txt\<close> is a sequence of literals and
  digit groups. \<open>re_match\<close> is \<open>re.match\<close> on such a sequence: it matches at the start of
  the string, a \<open>\d+\<close> group takes the longest run of digits first and gives characters
  back one at a time while the rest of the pattern fails, and whatever follows the match
  is left unread. The result is \<open>match.groups()\<close>. \<open>EndAnchor\<close> is \<open>\Z\<close>; the source's
  pattern has none.
\<close>

datatype re_item = Lit string | DigitsPlus | DigitsN nat | EndAnchor

fun re_match :: "re_item list \<Rightarrow> string \<Rightarrow> string list option"
  and re_digits :: "re_item list \<Rightarrow> string \<Rightarrow> nat \<Rightarrow> string list option" where
  "re_match [] s = Some []"
| "re_match (Lit l # ps) s = (if prefix l s then re_match ps (drop (length l) s) else None)"
| "re_match (DigitsPlus # ps) s = re_digits ps s (length (takeWhile is_digit s))"
| "re_match (DigitsN n # ps) s =
     (if n \<le> length (takeWhile is_digit s)
      then (case re_match ps (drop n s) of None \<Rightarrow> None | Some gs \<Rightarrow> Some (take n s # gs))
      else None)"
| "re_match (EndAnchor # ps) s = (if s = [] then re_match ps s else None)"
| "re_digits ps s 0 = None"
| "re_digits ps s (Suc n) =
     (case re_match ps (drop (Suc n) s) of
        Some gs \<Rightarrow> Some (take (Suc n) s # gs)
      | None \<Rightarrow> re_digits ps s n)"

definition filename_pattern :: "re_item list" where
  "filename_pattern =
     [Lit ''Pandora'', DigitsPlus, Lit ''s'', DigitsPlus, Lit ''_CF_v'', DigitsPlus,
      Lit ''d'', DigitsN 8, Lit ''.txt'']"

definition parse_filename :: "string \<Rightarrow> string list option" where
  \<comment> \<open>\<open>None\<close> when \<open>re.match\<close> finds nothing, else the tuple of the four groups, all \<open>str\<close>.\<close>
  "parse_filename filename = re_match filename_pattern filename"

section \<open>extract_file_details\<close>

type_synonym dict = "(string \<times> string) list"

text \<open>
  A \<open>dict\<close> from \<open>str\<close> to \<open>str\<close> is an association list in insertion order.
  \<open>data[k] = v\<close> is \<^const>\<open>AList.update\<close>: an existing key keeps its place and takes the
  new value, a new key goes to the end. \<open>extract_line\<close> is the body of the \<open>for\<close> loop;
  unpacking \<open>key, value = ...\<close> raises \<open>ValueError\<close> unless the split has two parts.
\<close>

definition extract_line :: "dict \<Rightarrow> string \<Rightarrow> exn + dict" where
  "extract_line data line =
     (if py_in ''->'' line then
        (case split_first ''->'' line of
           [key, val] \<Rightarrow> Inr (AList.update (py_strip key) (py_strip val) data)
         | _ \<Rightarrow> Inl (ValueError ''unpack''))
      else Inr data)"

fun extract_lines :: "dict \<Rightarrow> string list \<Rightarrow> exn + dict" where
  "extract_lines data [] = Inr data"
| "extract_lines data (line # rest) =
     (case extract_line data line of
        Inl e \<Rightarrow> Inl e
      | Inr data' \<Rightarrow> extract_lines data' rest)"

definition extract_file_details :: "string \<Rightarrow> exn + dict" where
  "extract_file_details file_content = extract_lines [] (splitlines file_content)"


section \<open>The records and the world around the program\<close>

text \<open>
  \<open>int(s)\<close> on a \<open>str\<close>: surrounding whitespace is dropped, one sign is allowed, and the
  rest is decimal digits with single underscores between them; anything else raises
  \<open>ValueError\<close>, and so does a numeral of more than 4300 digits (the interpreter's
  default limit on integer string conversion).
\<close>

definition int_of_digits :: "string \<Rightarrow> int" where
  "int_of_digits ds = foldl (\<lambda>a c. 10 * a + int (of_char c - 48)) 0 ds"

definition valid_int_body :: "string \<Rightarrow> bool" where
  "valid_int_body b =
     (b \<noteq> [] \<and> is_digit (hd b) \<and> is_digit (last b)
      \<and> list_all (\<lambda>c. is_digit c \<or> c = CHR ''_'') b \<and> \<not> py_in ''__'' b)"

definition py_int :: "string \<Rightarrow> exn + int" where
  "py_int s =
     (let t = py_strip s;
          neg = (t \<noteq> [] \<and> hd t = CHR ''-'');
          b = (if t \<noteq> [] \<and> (hd t = CHR ''-'' \<or> hd t = CHR ''+'') then tl t else t);
          ds = filter is_digit b
      in if \<not> valid_int_body b then Inl (ValueError ''invalid literal for int() with base 10'')
         else if 4300 < length ds then Inl (ValueError ''Exceeds the limit (4300 digits) for integer string conversion'')
         else Inr (if neg then - int_of_digits ds else int_of_digits ds))"

type_synonym blob = string

text \<open>
  A row of \<open>CalibrationData\<close>. The surrogate key \<open>id\<close> is left out: no handler reads it.
\<close>

record row =
  filename :: string
  pandora_id :: string
  spectrometer_id :: string
  version :: int
  validity_date :: string
  content :: blob

text \<open>
  Everything the handlers get from outside the two source files: the files of the
  directory, the database's failures, and the \<open>bson\<close> codec.
  \<^item> \<open>read_file name\<close> is \<open>open(os.path.join(directory, name), "r").read()\<close>;
  \<^item> \<open>first_fault name\<close> is the exception, if any, that
    \<open>query.filter_by(filename=name).first()\<close> raises;
  \<^item> \<open>all_fault\<close> is the exception, if any, that a query over the whole table raises;
  \<^item> \<open>commit_fault\<close> is the exception, if any, that \<open>db.session.commit()\<close> raises;
  \<^item> \<open>bson_dumps\<close> and \<open>bson_loads\<close> are \<open>bson.dumps\<close> and \<open>bson.loads\<close>.
\<close>

record env =
  read_file :: "string \<Rightarrow> exn + string"
  first_fault :: "string \<Rightarrow> exn option"
  all_fault :: "exn option"
  commit_fault :: "exn option"
  bson_dumps :: "dict \<Rightarrow> exn + blob"
  bson_loads :: "blob \<Rightarrow> exn + dict"

definition query_first :: "env \<Rightarrow> row list \<Rightarrow> string \<Rightarrow> exn + row option" where
  \<comment> \<open>\<open>CalibrationData.query.filter_by(filename=name).first()\<close>\<close>
  "query_first e rows name =
     (case first_fault e name of
        Some ex \<Rightarrow> Inl ex
      | None \<Rightarrow> Inr (find (\<lambda>r. filename r = name) rows))"

definition query_all :: "env \<Rightarrow> row list \<Rightarrow> exn + row list" where
  \<comment> \<open>\<open>CalibrationData.query.all()\<close>\<close>
  "query_all e rows = (case all_fault e of Some ex \<Rightarrow> Inl ex | None \<Rightarrow> Inr rows)"

definition get_content_of :: "env \<Rightarrow> row \<Rightarrow> exn + dict" where
  \<comment> \<open>\<open>row.get_content()\<close>\<close>
  "get_content_of e r = bson_loads e (content r)"

section \<open>The error handlers\<close>

definition bad_request :: "string \<Rightarrow> response" where
  "bad_request d = (JObj [(''error'', JStr ''Bad Request''), (''message'', JStr d)], 400)"

definition not_found :: "string \<Rightarrow> response" where
  "not_found d = (JObj [(''error'', JStr ''Not Found''), (''message'', JStr d)], 404)"

definition internal_server_error :: "string \<Rightarrow> response" where
  "internal_server_error d =
     (JObj [(''error'', JStr ''Internal Server Error''), (''message'', JStr d)], 500)"

definition database_error :: "string \<Rightarrow> exn \<Rightarrow> response" where
  \<comment> \<open>the body of an \<open>except SQLAlchemyError\<close> clause, with the text of its \<open>error\<close> field\<close>
  "database_error title ex = (JObj [(''error'', JStr title), (''details'', JStr (exn_str ex))], 500)"

definition unexpected_error :: "exn \<Rightarrow> response" where
  \<comment> \<open>the body of the final \<open>except Exception\<close> clause\<close>
  "unexpected_error ex =
     (JObj [(''error'', JStr ''An unexpected error occurred''), (''details'', JStr (exn_str ex))], 500)"

definition unhandled_description :: string where
  \<comment> \<open>the description of werkzeug's \<open>InternalServerError\<close>\<close>
  "unhandled_description =
     ''The server encountered an internal error and was unable to complete your request. '' @
     ''Either the server is overloaded or there is an error in the application.''"

fun flask_dispatch :: "exn + response \<Rightarrow> response" where
  \<comment> \<open>what Flask answers when a view returns, or lets an exception out: an \<open>abort\<close> goes
      to the handler registered for its code; any other exception becomes an
      \<open>InternalServerError\<close> with the library's description, and goes to the 500 handler.\<close>
  "flask_dispatch (Inr r) = r"
| "flask_dispatch (Inl (HTTPException code d)) =
     (if code = 400 then bad_request d
      else if code = 404 then not_found d
      else if code = 500 then internal_server_error d
      else (JNull, code))"
| "flask_dispatch (Inl ex) = internal_server_error unhandled_description"


section \<open>The views\<close>

subsection \<open>/api/health\<close>

definition health_check :: "env \<Rightarrow> row list \<Rightarrow> response" where
  "health_check e rows =
     (case query_all e (take 1 rows) of
        Inr probe \<Rightarrow> (JObj [(''status'', JStr ''healthy'')], 200)
      | Inl ex \<Rightarrow> (JObj [(''status'', JStr ''unhealthy''), (''details'', JStr (exn_str ex))], 500))"

subsection \<open>/api/query\<close>

text \<open>
  \<open>request_json\<close> is what reading \<open>request.json\<close> does: it raises, or it gives the decoded
  body. \<open>match_key\<close> is one round of the dict comprehension
  \<open>{key: content.get(key) for key in keys if key in content}\<close>: a list or an object is
  unhashable, so \<open>key in content\<close> raises \<open>TypeError\<close>; any other key that is not a
  string is in no content mapping.
\<close>

definition dict_get :: "dict \<Rightarrow> string \<Rightarrow> json" where
  \<comment> \<open>\<open>content.get(key)\<close>\<close>
  "dict_get c s = (case map_of c s of None \<Rightarrow> JNull | Some v \<Rightarrow> JStr v)"

fun match_key :: "dict \<Rightarrow> json \<Rightarrow> (string \<times> json) list \<Rightarrow> exn + (string \<times> json) list" where
  "match_key c (JStr s) acc =
     Inr (if map_of c s \<noteq> None then AList.update s (dict_get c s) acc else acc)"
| "match_key c (JArr xs) acc = Inl (TypeError (''unhashable type: 'list'' @ [CHR 0x27]))"
| "match_key c (JObj ps) acc = Inl (TypeError (''unhashable type: 'dict'' @ [CHR 0x27]))"
| "match_key c k acc = Inr acc"

fun matched_content :: "dict \<Rightarrow> json list \<Rightarrow> (string \<times> json) list \<Rightarrow> exn + (string \<times> json) list" where
  "matched_content c [] acc = Inr acc"
| "matched_content c (k # ks) acc =
     (case match_key c k acc of
        Inl ex \<Rightarrow> Inl ex
      | Inr acc' \<Rightarrow> matched_content c ks acc')"

definition query_item :: "row \<Rightarrow> (string \<times> json) list \<Rightarrow> json" where
  "query_item r m = JObj [(''filename'', JStr (filename r)), (''matched_content'', JObj m)]"

fun query_rows :: "env \<Rightarrow> json list \<Rightarrow> row list \<Rightarrow> json list \<Rightarrow> exn + json list" where
  "query_rows e keys [] resp = Inr resp"
| "query_rows e keys (r # rs) resp =
     (case get_content_of e r of
        Inl ex \<Rightarrow> Inl ex
      | Inr c \<Rightarrow>
          (case matched_content c keys [] of
             Inl ex \<Rightarrow> Inl ex
           | Inr m \<Rightarrow> query_rows e keys rs (if m \<noteq> [] then resp @ [query_item r m] else resp)))"

fun elems :: "json \<Rightarrow> json list" where
  "elems (JArr xs) = xs"
| "elems v = []"

definition query_try :: "env \<Rightarrow> exn + json \<Rightarrow> row list \<Rightarrow> exn + response" where
  \<comment> \<open>the \<open>try\<close> block of the view\<close>
  "query_try e request_json rows =
     (case request_json of
        Inl ex \<Rightarrow> Inl ex
      | Inr keys \<Rightarrow>
          if \<not> truthy keys \<or> \<not> is_list keys
          then Inl (HTTPException 400 ''Invalid or missing keys in request body'')
          else (case query_all e rows of
                  Inl ex \<Rightarrow> Inl ex
                | Inr results \<Rightarrow>
                    (case query_rows e (elems keys) results [] of
                       Inl ex \<Rightarrow> Inl ex
                     | Inr resp \<Rightarrow> Inr (JArr resp, 200))))"

definition query_calibration_data :: "env \<Rightarrow> exn + json \<Rightarrow> row list \<Rightarrow> response" where
  "query_calibration_data e request_json rows =
     (case query_try e request_json rows of
        Inr r \<Rightarrow> r
      | Inl ex \<Rightarrow>
          if is_SQLAlchemyError ex then database_error ''Database error'' ex
          else unexpected_error ex)"

subsection \<open>/api/get_content\<close>

definition entry_json :: "row \<Rightarrow> dict \<Rightarrow> json" where
  "entry_json r c =
     JObj [(''filename'', JStr (filename r)),
           (''pandora_id'', JStr (pandora_id r)),
           (''spectrometer_id'', JStr (spectrometer_id r)),
           (''version'', JInt (version r)),
           (''validity_date'', JStr (validity_date r)),
           (''content'', JObj (map (\<lambda>(k, v). (k, JStr v)) c))]"

definition get_content_try :: "env \<Rightarrow> string option \<Rightarrow> row list \<Rightarrow> exn + response" where
  \<comment> \<open>the \<open>try\<close> block; the argument is \<open>request.args.get("filename")\<close>\<close>
  "get_content_try e arg rows =
     (case arg of
        None \<Rightarrow> Inl (HTTPException 400 ''Filename parameter is required'')
      | Some name \<Rightarrow>
          if name = [] then Inl (HTTPException 400 ''Filename parameter is required'')
          else (case query_first e rows name of
                  Inl ex \<Rightarrow> Inl ex
                | Inr None \<Rightarrow>
                    Inl (HTTPException 404 (''No calibration data found for filename: '' @ name))
                | Inr (Some entry) \<Rightarrow>
                    (case get_content_of e entry of
                       Inl ex \<Rightarrow> Inl ex
                     | Inr c \<Rightarrow> Inr (entry_json entry c, 200))))"

definition get_content_except :: "exn \<Rightarrow> exn + response" where
  \<comment> \<open>what happens to an exception of the \<open>try\<close> block. The clauses are tried in order,
      and the first names \<open>bson.errors.BSONDecodeError\<close>: the \<open>bson\<close> package that has
      \<open>dumps\<close> and \<open>loads\<close> has no attribute \<open>errors\<close>, so evaluating the name raises
      \<open>AttributeError\<close>, whatever the exception was. No clause is entered, and the
      \<open>AttributeError\<close> leaves the view.\<close>
  "get_content_except ex =
     Inl (AttributeError (''module 'bson' has no attribute 'errors'' @ [CHR 0x27]))"

definition get_content :: "env \<Rightarrow> string option \<Rightarrow> row list \<Rightarrow> response" where
  "get_content e arg rows =
     flask_dispatch
       (case get_content_try e arg rows of
          Inr r \<Rightarrow> Inr r
        | Inl ex \<Rightarrow> get_content_except ex)"


subsection \<open>/api/process_files\<close>

text \<open>
  The directory as the view sees it: absent, unreadable, or the names \<open>os.listdir\<close>
  returns.
\<close>

datatype listing = NoSuchDir | ListdirRaises exn | Listing "string list"

text \<open>
  The state of the loop is its three counters, its list of messages and the state of
  \<open>db.session\<close>: the rows it has flushed into the open transaction, the rows added and not
  yet flushed, and whether a flush has failed. The session flushes before every query and
  before the commit. A flush writes the pending rows; SQLite takes a \<open>version\<close> only if it
  is a signed 64-bit integer, and the driver raises \<open>OverflowError\<close> otherwise. After a
  failed flush the session refuses every further query, flush and commit with a
  \<open>PendingRollbackError\<close>, a subclass of \<open>SQLAlchemyError\<close> (its text goes on with a
  reference to the library's documentation, left out here).
\<close>

record ingest_state =
  added :: nat
  skipped :: nat
  errors :: nat
  error_messages :: "string list"
  flushed :: "row list"
  pending :: "row list"
  broken :: bool

definition ingest_start :: ingest_state where
  "ingest_start =
     \<lparr>added = 0, skipped = 0, errors = 0, error_messages = [], flushed = [], pending = [],
      broken = False\<rparr>"

definition sqlite_integer :: "int \<Rightarrow> bool" where
  "sqlite_integer v = (- (2 ^ 63) \<le> v \<and> v < 2 ^ 63)"

definition pending_rollback :: exn where
  "pending_rollback =
     SQLAlchemyError
       (''This Session's transaction has been rolled back due to a previous exception during flush. '' @
        ''To begin a new transaction with this Session, first issue Session.rollback(). '' @
        ''Original exception was: Python int too large to convert to SQLite INTEGER'')"

definition flush_rows :: "ingest_state \<Rightarrow> ingest_state" where
  "flush_rows st = st\<lparr>flushed := flushed st @ pending st, pending := []\<rparr>"

definition autoflush :: "ingest_state \<Rightarrow> exn option \<times> ingest_state" where
  \<comment> \<open>the flush before a query or a commit: the exception it raises, if any, and the session after it\<close>
  "autoflush st =
     (if broken st then (Some pending_rollback, st)
      else if list_all (\<lambda>r. sqlite_integer (version r)) (pending st) then (None, flush_rows st)
      else (Some (OverflowError ''Python int too large to convert to SQLite INTEGER''),
            st\<lparr>broken := True\<rparr>))"

definition session_first :: "env \<Rightarrow> row list \<Rightarrow> ingest_state \<Rightarrow> string \<Rightarrow> (exn + row option) \<times> ingest_state" where
  \<comment> \<open>\<open>CalibrationData.query.filter_by(filename=name).first()\<close> inside the loop: the
      query sees the table and the rows of the open transaction\<close>
  "session_first e db st name =
     (case autoflush st of
        (Some ex, st') \<Rightarrow> (Inl ex, st')
      | (None, st') \<Rightarrow> (query_first e (db @ flushed st') name, st'))"

definition new_data :: "env \<Rightarrow> string \<Rightarrow> string \<Rightarrow> string \<Rightarrow> string \<Rightarrow> string \<Rightarrow> dict \<Rightarrow> exn + row" where
  \<comment> \<open>\<open>CalibrationData(..., version=int(version), ...)\<close> followed by \<open>set_content\<close>\<close>
  "new_data e name pid sid ver vdate file_details =
     (case py_int ver of
        Inl ex \<Rightarrow> Inl ex
      | Inr v \<Rightarrow>
          (case bson_dumps e file_details of
             Inl ex \<Rightarrow> Inl ex
           | Inr b \<Rightarrow>
               Inr \<lparr>filename = name, pandora_id = pid, spectrometer_id = sid, version = v,
                    validity_date = vdate, content = b\<rparr>))"

definition try_entry :: "env \<Rightarrow> row list \<Rightarrow> ingest_state \<Rightarrow> string \<Rightarrow> string list \<Rightarrow> exn option \<times> ingest_state" where
  \<comment> \<open>the inner \<open>try\<close> block from the unpacking of \<open>parsed\<close> on: the exception it raises,
      if any, and the state it leaves\<close>
  "try_entry e db st name parsed =
     (case parsed of
        [pid, sid, ver, vdate] \<Rightarrow>
          (case read_file e name of
             Inl ex \<Rightarrow> (Some ex, st)
           | Inr text \<Rightarrow>
               (case extract_file_details text of
                  Inl ex \<Rightarrow> (Some ex, st)
                | Inr file_details \<Rightarrow>
                    (case session_first e db st name of
                       (Inl ex, st') \<Rightarrow> (Some ex, st')
                     | (Inr (Some existing_entry), st') \<Rightarrow> (None, st'\<lparr>skipped := skipped st' + 1\<rparr>)
                     | (Inr None, st') \<Rightarrow>
                         (case new_data e name pid sid ver vdate file_details of
                            Inl ex \<Rightarrow> (Some ex, st')
                          | Inr r \<Rightarrow>
                              (None, st'\<lparr>pending := pending st' @ [r],
                                         added := added st' + 1\<rparr>)))))
      | _ \<Rightarrow> (Some (ValueError ''wrong number of values to unpack''), st))"

definition error_message :: "string \<Rightarrow> exn \<Rightarrow> string" where
  "error_message name ex = ''Error processing file '' @ name @ '': '' @ exn_str ex"

definition count_error :: "ingest_state \<Rightarrow> string \<Rightarrow> exn \<Rightarrow> ingest_state" where
  \<comment> \<open>the inner \<open>except\<close> block\<close>
  "count_error st name ex =
     st\<lparr>errors := errors st + 1,
        error_messages := error_messages st @ [error_message name ex]\<rparr>"

definition process_entry :: "env \<Rightarrow> row list \<Rightarrow> ingest_state \<Rightarrow> string \<Rightarrow> ingest_state" where
  \<comment> \<open>one round of the \<open>for\<close> loop\<close>
  "process_entry e db st name =
     (if \<not> endswith name ''.txt'' then st
      else (case parse_filename name of
              None \<Rightarrow> st
            | Some parsed \<Rightarrow>
                if parsed = [] then st
                else (case try_entry e db st name parsed of
                        (None, st') \<Rightarrow> st'
                      | (Some ex, st') \<Rightarrow> count_error st' name ex)))"

fun ingest_loop :: "env \<Rightarrow> row list \<Rightarrow> ingest_state \<Rightarrow> string list \<Rightarrow> ingest_state" where
  "ingest_loop e db st [] = st"
| "ingest_loop e db st (name # names) = ingest_loop e db (process_entry e db st name) names"

definition ingest_body :: "nat \<Rightarrow> nat \<Rightarrow> nat \<Rightarrow> string list \<Rightarrow> json" where
  "ingest_body a s n msgs =
     JObj [(''added'', JInt (int a)), (''skipped'', JInt (int s)), (''errors'', JInt (int n)),
           (''error_messages'', JArr (map JStr msgs))]"

definition process_try :: "env \<Rightarrow> listing \<Rightarrow> row list \<Rightarrow> exn + response \<times> row list" where
  \<comment> \<open>the outer \<open>try\<close> block; the commit flushes, and then makes the rows of the
      transaction part of the table\<close>
  "process_try e dir db =
     (case dir of
        NoSuchDir \<Rightarrow> Inl (FileNotFoundError ''Directory ./calibration_files does not exist'')
      | ListdirRaises ex \<Rightarrow> Inl ex
      | Listing names \<Rightarrow>
          (case autoflush (ingest_loop e db ingest_start names) of
             (Some ex, st) \<Rightarrow> Inl ex
           | (None, st) \<Rightarrow>
               (case commit_fault e of
                  Some ex \<Rightarrow> Inl ex
                | None \<Rightarrow>
                    Inr ((ingest_body (added st) (skipped st) (errors st) (error_messages st), 200),
                         db @ flushed st))))"

definition process_files :: "env \<Rightarrow> listing \<Rightarrow> row list \<Rightarrow> response \<times> row list" where
  \<comment> \<open>the view, with the table after it; both \<open>except\<close> clauses roll the session back\<close>
  "process_files e dir db =
     (case process_try e dir db of
        Inr r \<Rightarrow> r
      | Inl ex \<Rightarrow>
          (if is_SQLAlchemyError ex then database_error ''Database error occurred'' ex
           else unexpected_error ex, db))"

section \<open>The specification's wording\<close>

text \<open>
  The filename rule as the specification words it, anchored at both ends: the source's
  pattern followed by the end of the string.
\<close>

definition spec_exact_match :: "string \<Rightarrow> bool" where
  "spec_exact_match name = (re_match (filename_pattern @ [EndAnchor]) name \<noteq> None)"

text \<open>
  The tuple the specification gives for a filename has an integer in third place. A
  component of a tuple is a \<open>str\<close> or an \<open>int\<close>; \<open>groups_value\<close> is the tuple of
  \<open>match.groups()\<close>, whose components are all \<open>str\<close>.
\<close>

datatype pyval = PStr string | PInt int

definition groups_value :: "string list \<Rightarrow> pyval list" where
  "groups_value gs = map PStr gs"

text \<open>
  The integer a string of decimal digits denotes, in positional notation: the digit at
  place \<open>i\<close> from the left counts \<open>10\<close> to the power of the number of digits after it.
\<close>

definition spec_digit :: "char \<Rightarrow> nat" where
  "spec_digit c = length (takeWhile (\<lambda>x. x \<noteq> c) ''0123456789'')"

definition spec_decimal :: "string \<Rightarrow> int" where
  "spec_decimal ds =
     sum_list (map (\<lambda>i. int (spec_digit (ds ! i)) * 10 ^ (length ds - Suc i)) [0..<length ds])"

text \<open>
  The Content Extractor as the specification words it. A line contributes when the
  delimiter occurs in it; it is cut at the first position where the delimiter stands,
  both sides are trimmed, and for each key the last contributing line decides.
\<close>

definition spec_first_arrow :: "string \<Rightarrow> nat option" where
  "spec_first_arrow line = find (\<lambda>i. take 2 (drop i line) = ''->'') [0..<length line]"

definition spec_trim :: "string \<Rightarrow> string" where
  "spec_trim s =
     (let t = dropWhile is_space s
      in take (length t - length (takeWhile is_space (rev t))) t)"

definition spec_line :: "string \<Rightarrow> (string \<times> string) option" where
  "spec_line line =
     (case spec_first_arrow line of
        None \<Rightarrow> None
      | Some i \<Rightarrow> Some (spec_trim (take i line), spec_trim (drop (i + 2) line)))"

definition spec_extract :: "string \<Rightarrow> string \<Rightarrow> string option" where
  "spec_extract text k =
     (case filter (\<lambda>p. fst p = k) (List.map_filter spec_line (splitlines text)) of
        [] \<Rightarrow> None
      | ps \<Rightarrow> Some (snd (last ps)))"


section \<open>A world for the worked examples\<close>

text \<open>
  A world in which nothing fails: every file holds the one line \<open>a -> 1\<close>, the database
  never raises, and the codec writes a mapping as lines of \<open>key->value\<close>.
\<close>

definition example_dumps :: "dict \<Rightarrow> exn + blob" where
  "example_dumps d = Inr (concat (map (\<lambda>(k, v). k @ ''->'' @ v @ [CHR 0x0A]) d))"

definition example_env :: env where
  "example_env =
     \<lparr>read_file = (\<lambda>name. Inr ''a -> 1''),
      first_fault = (\<lambda>name. None),
      all_fault = None,
      commit_fault = None,
      bson_dumps = example_dumps,
      bson_loads = extract_file_details\<rparr>"

definition example_row :: "string \<Rightarrow> row" where
  "example_row name =
     \<lparr>filename = name, pandora_id = ''1'', spectrometer_id = ''2'', version = 3,
      validity_date = ''20230101'', content = ''a->1\<newline>b->2\<newline>''\<rparr>"


section \<open>Notions for the ingestion proofs\<close>

text \<open>
  What a round of the loop does with a name depends on the loop's state only through the
  flush and the existence check. \<open>reaches_check\<close> says that the round gets as far as the
  query and that the database raises nothing there; \<open>built_row\<close> is the row the round
  builds for the name, or the exception building it raises. \<open>session_rows\<close> are the rows
  the session holds, and \<open>flushable\<close> says that its next flush succeeds.
\<close>

definition reaches_check :: "env \<Rightarrow> string \<Rightarrow> bool" where
  "reaches_check e name =
     (endswith name ''.txt'' \<and> parse_filename name \<noteq> None
      \<and> \<not> isl (read_file e name) \<and> first_fault e name = None)"

definition built_row :: "env \<Rightarrow> string \<Rightarrow> exn + row" where
  "built_row e name =
     (case parse_filename name of
        Some [pid, sid, ver, vdate] \<Rightarrow>
          (case read_file e name of
             Inl ex \<Rightarrow> Inl ex
           | Inr text \<Rightarrow>
               (case extract_file_details text of
                  Inl ex \<Rightarrow> Inl ex
                | Inr file_details \<Rightarrow> new_data e name pid sid ver vdate file_details))
      | _ \<Rightarrow> Inl (ValueError ''no match''))"

definition session_rows :: "ingest_state \<Rightarrow> row list" where
  "session_rows st = flushed st @ pending st"

definition flushable :: "ingest_state \<Rightarrow> bool" where
  "flushable st = (\<not> broken st \<and> list_all (\<lambda>r. sqlite_integer (version r)) (pending st))"

section \<open>What the pattern matches\<close>

text \<open>
  A digit group followed by a literal that starts with a non-digit takes exactly the run
  of digits in front of the literal, so on a name of the expected shape the match
  succeeds at the first try (completeness); and whatever the matcher accepts has that
  shape, up to characters after the extension (soundness).
\<close>

lemma takeWhile_digits_append:
  "list_all is_digit d \<Longrightarrow> r = [] \<or> \<not> is_digit (hd r) \<Longrightarrow> takeWhile is_digit (d @ r) = d"
  by (cases r) (auto simp: list_all_iff takeWhile_append2)

lemma re_digits_first_try:
  "re_match ps (drop (Suc n) s) = Some gs \<Longrightarrow> re_digits ps s (Suc n) = Some (take (Suc n) s # gs)"
  by simp

lemma re_match_DigitsPlus_exact:
  assumes "list_all is_digit d" "d \<noteq> []" "r = [] \<or> \<not> is_digit (hd r)" "re_match ps r = Some gs"
  shows "re_match (DigitsPlus # ps) (d @ r) = Some (d # gs)"
proof -
  obtain n where n: "length d = Suc n" using assms(2) by (cases d) auto
  have "re_match (DigitsPlus # ps) (d @ r) = re_digits ps (d @ r) (Suc n)"
    using takeWhile_digits_append[OF assms(1,3)] n by simp
  also have "\<dots> = Some (take (Suc n) (d @ r) # gs)"
    using assms(4) n by (intro re_digits_first_try) simp
  finally show ?thesis using n by simp
qed

lemma re_match_DigitsN_exact:
  assumes "list_all is_digit d" "length d = n" "re_match ps r = Some gs"
  shows "re_match (DigitsN n # ps) (d @ r) = Some (d # gs)"
proof -
  have "takeWhile is_digit (d @ r) = d @ takeWhile is_digit r"
    using assms(1) by (simp add: list_all_iff takeWhile_append2)
  then show ?thesis using assms by simp
qed

lemma re_match_Lit_exact: "re_match (Lit l # ps) (l @ r) = re_match ps r"
  by simp

lemma filename_pattern_complete:
  assumes "list_all is_digit d1" "d1 \<noteq> []" "list_all is_digit d2" "d2 \<noteq> []"
    "list_all is_digit d3" "d3 \<noteq> []" "list_all is_digit d4" "length d4 = 8"
    "re_match tp rest = Some g"
  shows "re_match (filename_pattern @ tp)
           (''Pandora'' @ d1 @ ''s'' @ d2 @ ''_CF_v'' @ d3 @ ''d'' @ d4 @ ''.txt'' @ rest)
         = Some ([d1, d2, d3, d4] @ g)"
proof -
  have nd: "\<not> is_digit (CHR ''s'')" "\<not> is_digit (CHR ''_'')" "\<not> is_digit (CHR ''d'')"
    by (simp_all add: is_digit_def)
  have 1: "re_match (Lit ''.txt'' # tp) (''.txt'' @ rest) = Some g"
    by (subst re_match_Lit_exact) (rule assms(9))
  have 2: "re_match (DigitsN 8 # Lit ''.txt'' # tp) (d4 @ ''.txt'' @ rest) = Some (d4 # g)"
    by (rule re_match_DigitsN_exact[OF assms(7,8) 1])
  have 3: "re_match (Lit ''d'' # DigitsN 8 # Lit ''.txt'' # tp) (''d'' @ d4 @ ''.txt'' @ rest) = Some (d4 # g)"
    by (subst re_match_Lit_exact) (rule 2)
  have 4: "re_match (DigitsPlus # Lit ''d'' # DigitsN 8 # Lit ''.txt'' # tp)
             (d3 @ ''d'' @ d4 @ ''.txt'' @ rest) = Some (d3 # d4 # g)"
    by (rule re_match_DigitsPlus_exact[OF assms(5,6) _ 3]) (simp add: nd)
  have 5: "re_match (Lit ''_CF_v'' # DigitsPlus # Lit ''d'' # DigitsN 8 # Lit ''.txt'' # tp)
             (''_CF_v'' @ d3 @ ''d'' @ d4 @ ''.txt'' @ rest) = Some (d3 # d4 # g)"
    by (subst re_match_Lit_exact) (rule 4)
  have 6: "re_match (DigitsPlus # Lit ''_CF_v'' # DigitsPlus # Lit ''d'' # DigitsN 8 # Lit ''.txt'' # tp)
             (d2 @ ''_CF_v'' @ d3 @ ''d'' @ d4 @ ''.txt'' @ rest) = Some (d2 # d3 # d4 # g)"
    by (rule re_match_DigitsPlus_exact[OF assms(3,4) _ 5]) (simp add: nd)
  have 7: "re_match (Lit ''s'' # DigitsPlus # Lit ''_CF_v'' # DigitsPlus # Lit ''d'' # DigitsN 8 # Lit ''.txt'' # tp)
             (''s'' @ d2 @ ''_CF_v'' @ d3 @ ''d'' @ d4 @ ''.txt'' @ rest) = Some (d2 # d3 # d4 # g)"
    by (subst re_match_Lit_exact) (rule 6)
  have 8: "re_match (DigitsPlus # Lit ''s'' # DigitsPlus # Lit ''_CF_v'' # DigitsPlus # Lit ''d'' # DigitsN 8 # Lit ''.txt'' # tp)
             (d1 @ ''s'' @ d2 @ ''_CF_v'' @ d3 @ ''d'' @ d4 @ ''.txt'' @ rest) = Some (d1 # d2 # d3 # d4 # g)"
    by (rule re_match_DigitsPlus_exact[OF assms(1,2) _ 7]) (simp add: nd)
  have "re_match (Lit ''Pandora'' # DigitsPlus # Lit ''s'' # DigitsPlus # Lit ''_CF_v'' # DigitsPlus # Lit ''d'' # DigitsN 8 # Lit ''.txt'' # tp)
             (''Pandora'' @ d1 @ ''s'' @ d2 @ ''_CF_v'' @ d3 @ ''d'' @ d4 @ ''.txt'' @ rest) = Some (d1 # d2 # d3 # d4 # g)"
    by (subst re_match_Lit_exact) (rule 8)
  then show ?thesis
    by (simp add: filename_pattern_def)
qed

lemma re_digits_sound:
  "re_digits ps s n = Some gs \<Longrightarrow> n \<le> length (takeWhile is_digit s) \<Longrightarrow>
   \<exists>k gs'. 0 < k \<and> k \<le> n \<and> gs = take k s # gs' \<and> re_match ps (drop k s) = Some gs'"
proof (induction n)
  case 0
  then show ?case by simp
next
  case (Suc n)
  show ?case
  proof (cases "re_match ps (drop (Suc n) s)")
    case None
    with Suc.prems have "re_digits ps s n = Some gs" by simp
    with Suc.IH Suc.prems(2) obtain k gs' where
      "0 < k" "k \<le> n" "gs = take k s # gs'" "re_match ps (drop k s) = Some gs'"
      by auto
    then show ?thesis by (intro exI[of _ k] exI[of _ gs']) simp
  next
    case (Some gs')
    with Suc.prems have "gs = take (Suc n) s # gs'" by simp
    with Some show ?thesis by (intro exI[of _ "Suc n"] exI[of _ gs']) simp
  qed
qed

lemma take_takeWhile_digits:
  "k \<le> length (takeWhile is_digit s) \<Longrightarrow> list_all is_digit (take k s) \<and> length (take k s) = k"
proof -
  assume k: "k \<le> length (takeWhile is_digit s)"
  have "take k s = take k (takeWhile is_digit s @ dropWhile is_digit s)" by simp
  also have "\<dots> = take k (takeWhile is_digit s)" using k by (simp del: takeWhile_dropWhile_id)
  finally have e: "take k s = take k (takeWhile is_digit s)" .
  have "set (take k (takeWhile is_digit s)) \<subseteq> set (takeWhile is_digit s)" by (rule set_take_subset)
  then have "list_all is_digit (take k s)"
    unfolding e list_all_iff by (auto dest: set_takeWhileD)
  moreover have "length (take k s) = k"
    using k length_takeWhile_le[of is_digit s] by simp
  ultimately show ?thesis by simp
qed

lemma re_match_DigitsPlus_sound:
  assumes "re_match (DigitsPlus # ps) s = Some gs"
  shows "\<exists>d r gs'. gs = d # gs' \<and> s = d @ r \<and> d \<noteq> [] \<and> list_all is_digit d \<and> re_match ps r = Some gs'"
proof -
  from assms have "re_digits ps s (length (takeWhile is_digit s)) = Some gs" by simp
  from re_digits_sound[OF this] obtain k gs' where
    k: "0 < k" "k \<le> length (takeWhile is_digit s)" "gs = take k s # gs'"
    "re_match ps (drop k s) = Some gs'" by auto
  from take_takeWhile_digits[OF k(2)] k(1) have "list_all is_digit (take k s)" "take k s \<noteq> []"
    by auto
  with k show ?thesis
    by (intro exI[of _ "take k s"] exI[of _ "drop k s"] exI[of _ gs']) simp
qed

lemma re_match_DigitsN_sound:
  assumes "re_match (DigitsN n # ps) s = Some gs"
  shows "\<exists>d r gs'. gs = d # gs' \<and> s = d @ r \<and> length d = n \<and> list_all is_digit d \<and> re_match ps r = Some gs'"
proof -
  from assms have n: "n \<le> length (takeWhile is_digit s)" by (simp split: if_splits)
  with assms obtain gs' where g: "re_match ps (drop n s) = Some gs'" "gs = take n s # gs'"
    by (auto split: option.splits)
  from take_takeWhile_digits[OF n] g show ?thesis
    by (intro exI[of _ "take n s"] exI[of _ "drop n s"] exI[of _ gs']) simp
qed

lemma re_match_Lit_sound:
  assumes "re_match (Lit l # ps) s = Some gs"
  shows "\<exists>r. s = l @ r \<and> re_match ps r = Some gs"
proof -
  from assms have p: "prefix l s" by (simp split: if_splits)
  then obtain r where r: "s = l @ r" by (auto simp: prefix_def)
  with assms show ?thesis by (intro exI[of _ r]) simp
qed

lemma filename_pattern_sound:
  assumes "re_match (filename_pattern @ tp) name = Some gs"
  shows "\<exists>d1 d2 d3 d4 rest g.
           gs = [d1, d2, d3, d4] @ g \<and> re_match tp rest = Some g
           \<and> name = ''Pandora'' @ d1 @ ''s'' @ d2 @ ''_CF_v'' @ d3 @ ''d'' @ d4 @ ''.txt'' @ rest
           \<and> list_all is_digit d1 \<and> d1 \<noteq> [] \<and> list_all is_digit d2 \<and> d2 \<noteq> []
           \<and> list_all is_digit d3 \<and> d3 \<noteq> [] \<and> list_all is_digit d4 \<and> length d4 = 8"
proof -
  from assms have "re_match (Lit ''Pandora'' # DigitsPlus # Lit ''s'' # DigitsPlus # Lit ''_CF_v'' # DigitsPlus # Lit ''d'' # DigitsN 8 # Lit ''.txt'' # tp) name = Some gs"
    by (simp add: filename_pattern_def)
  from re_match_Lit_sound[OF this] obtain r1 where r1: "name = ''Pandora'' @ r1"
    "re_match (DigitsPlus # Lit ''s'' # DigitsPlus # Lit ''_CF_v'' # DigitsPlus # Lit ''d'' # DigitsN 8 # Lit ''.txt'' # tp) r1 = Some gs"
    by blast
  from re_match_DigitsPlus_sound[OF r1(2)] obtain d1 r2 g2 where d1:
    "gs = d1 # g2" "r1 = d1 @ r2" "d1 \<noteq> []" "list_all is_digit d1"
    "re_match (Lit ''s'' # DigitsPlus # Lit ''_CF_v'' # DigitsPlus # Lit ''d'' # DigitsN 8 # Lit ''.txt'' # tp) r2 = Some g2"
    by blast
  from re_match_Lit_sound[OF d1(5)] obtain r3 where r3: "r2 = ''s'' @ r3"
    "re_match (DigitsPlus # Lit ''_CF_v'' # DigitsPlus # Lit ''d'' # DigitsN 8 # Lit ''.txt'' # tp) r3 = Some g2"
    by blast
  from re_match_DigitsPlus_sound[OF r3(2)] obtain d2 r4 g3 where d2:
    "g2 = d2 # g3" "r3 = d2 @ r4" "d2 \<noteq> []" "list_all is_digit d2"
    "re_match (Lit ''_CF_v'' # DigitsPlus # Lit ''d'' # DigitsN 8 # Lit ''.txt'' # tp) r4 = Some g3"
    by blast
  from re_match_Lit_sound[OF d2(5)] obtain r5 where r5: "r4 = ''_CF_v'' @ r5"
    "re_match (DigitsPlus # Lit ''d'' # DigitsN 8 # Lit ''.txt'' # tp) r5 = Some g3"
    by blast
  from re_match_DigitsPlus_sound[OF r5(2)] obtain d3 r6 g4 where d3:
    "g3 = d3 # g4" "r5 = d3 @ r6" "d3 \<noteq> []" "list_all is_digit d3"
    "re_match (Lit ''d'' # DigitsN 8 # Lit ''.txt'' # tp) r6 = Some g4"
    by blast
  from re_match_Lit_sound[OF d3(5)] obtain r7 where r7: "r6 = ''d'' @ r7"
    "re_match (DigitsN 8 # Lit ''.txt'' # tp) r7 = Some g4"
    by blast
  from re_match_DigitsN_sound[OF r7(2)] obtain d4 r8 g5 where d4:
    "g4 = d4 # g5" "r7 = d4 @ r8" "length d4 = 8" "list_all is_digit d4"
    "re_match (Lit ''.txt'' # tp) r8 = Some g5"
    by blast
  from re_match_Lit_sound[OF d4(5)] obtain rest where r9: "r8 = ''.txt'' @ rest"
    "re_match tp rest = Some g5"
    by blast
  have "gs = [d1, d2, d3, d4] @ g5" using d1(1) d2(1) d3(1) d4(1) by simp
  moreover have "name = ''Pandora'' @ d1 @ ''s'' @ d2 @ ''_CF_v'' @ d3 @ ''d'' @ d4 @ ''.txt'' @ rest"
    using r1(1) d1(2) r3(1) d2(2) r5(1) d3(2) r7(1) d4(2) r9(1) by simp
  ultimately show ?thesis
    using d1(3,4) d2(3,4) d3(3,4) d4(3,4) r9(2) by blast
qed

lemma parse_filename_complete:
  assumes "list_all is_digit d1" "d1 \<noteq> []" "list_all is_digit d2" "d2 \<noteq> []"
    "list_all is_digit d3" "d3 \<noteq> []" "list_all is_digit d4" "length d4 = 8"
  shows "parse_filename (''Pandora'' @ d1 @ ''s'' @ d2 @ ''_CF_v'' @ d3 @ ''d'' @ d4 @ ''.txt'' @ rest)
         = Some [d1, d2, d3, d4]"
  using filename_pattern_complete[OF assms, of "[]" rest "[]"]
  by (simp add: parse_filename_def)

lemma parse_filename_sound:
  assumes "parse_filename name = Some gs"
  shows "\<exists>d1 d2 d3 d4 rest.
           gs = [d1, d2, d3, d4]
           \<and> name = ''Pandora'' @ d1 @ ''s'' @ d2 @ ''_CF_v'' @ d3 @ ''d'' @ d4 @ ''.txt'' @ rest
           \<and> list_all is_digit d1 \<and> d1 \<noteq> [] \<and> list_all is_digit d2 \<and> d2 \<noteq> []
           \<and> list_all is_digit d3 \<and> d3 \<noteq> [] \<and> list_all is_digit d4 \<and> length d4 = 8"
proof -
  from assms have "re_match (filename_pattern @ []) name = Some gs"
    by (simp add: parse_filename_def)
  from filename_pattern_sound[OF this] obtain d1 d2 d3 d4 rest g where
    h: "gs = [d1, d2, d3, d4] @ g" "re_match [] rest = Some g"
      "name = ''Pandora'' @ d1 @ ''s'' @ d2 @ ''_CF_v'' @ d3 @ ''d'' @ d4 @ ''.txt'' @ rest"
      "list_all is_digit d1" "d1 \<noteq> []" "list_all is_digit d2" "d2 \<noteq> []"
      "list_all is_digit d3" "d3 \<noteq> []" "list_all is_digit d4" "length d4 = 8"
    by blast
  from h(1,2) have "gs = [d1, d2, d3, d4]" by simp
  with h(3-11) show ?thesis by blast
qed

lemma spec_exact_match_iff:
  "spec_exact_match name \<longleftrightarrow>
     (\<exists>d1 d2 d3 d4.
        name = ''Pandora'' @ d1 @ ''s'' @ d2 @ ''_CF_v'' @ d3 @ ''d'' @ d4 @ ''.txt''
        \<and> list_all is_digit d1 \<and> d1 \<noteq> [] \<and> list_all is_digit d2 \<and> d2 \<noteq> []
        \<and> list_all is_digit d3 \<and> d3 \<noteq> [] \<and> list_all is_digit d4 \<and> length d4 = 8)"
proof
  assume "spec_exact_match name"
  then obtain gs where "re_match (filename_pattern @ [EndAnchor]) name = Some gs"
    by (auto simp: spec_exact_match_def)
  from filename_pattern_sound[OF this] obtain d1 d2 d3 d4 rest g where
    h: "re_match [EndAnchor] rest = Some g"
      "name = ''Pandora'' @ d1 @ ''s'' @ d2 @ ''_CF_v'' @ d3 @ ''d'' @ d4 @ ''.txt'' @ rest"
      "list_all is_digit d1" "d1 \<noteq> []" "list_all is_digit d2" "d2 \<noteq> []"
      "list_all is_digit d3" "d3 \<noteq> []" "list_all is_digit d4" "length d4 = 8"
    by blast
  from h(1) have "rest = []" by (simp split: if_splits)
  with h show "\<exists>d1 d2 d3 d4.
        name = ''Pandora'' @ d1 @ ''s'' @ d2 @ ''_CF_v'' @ d3 @ ''d'' @ d4 @ ''.txt''
        \<and> list_all is_digit d1 \<and> d1 \<noteq> [] \<and> list_all is_digit d2 \<and> d2 \<noteq> []
        \<and> list_all is_digit d3 \<and> d3 \<noteq> [] \<and> list_all is_digit d4 \<and> length d4 = 8"
    by (intro exI[of _ d1] exI[of _ d2] exI[of _ d3] exI[of _ d4]) simp
next
  assume "\<exists>d1 d2 d3 d4.
        name = ''Pandora'' @ d1 @ ''s'' @ d2 @ ''_CF_v'' @ d3 @ ''d'' @ d4 @ ''.txt''
        \<and> list_all is_digit d1 \<and> d1 \<noteq> [] \<and> list_all is_digit d2 \<and> d2 \<noteq> []
        \<and> list_all is_digit d3 \<and> d3 \<noteq> [] \<and> list_all is_digit d4 \<and> length d4 = 8"
  then obtain d1 d2 d3 d4 where
    h: "name = ''Pandora'' @ d1 @ ''s'' @ d2 @ ''_CF_v'' @ d3 @ ''d'' @ d4 @ ''.txt''"
      "list_all is_digit d1" "d1 \<noteq> []" "list_all is_digit d2" "d2 \<noteq> []"
      "list_all is_digit d3" "d3 \<noteq> []" "list_all is_digit d4" "length d4 = 8"
    by blast
  have e: "re_match [EndAnchor] [] = Some []" by simp
  from filename_pattern_complete[OF h(2-9) e] h(1)
  show "spec_exact_match name"
    by (simp add: spec_exact_match_def)
qed

lemma parse_filename_matches_prefix:
  "parse_filename name \<noteq> None \<longleftrightarrow> (\<exists>p rest. name = p @ rest \<and> spec_exact_match p)"
proof
  assume "parse_filename name \<noteq> None"
  then obtain gs where "parse_filename name = Some gs" by auto
  from parse_filename_sound[OF this] obtain d1 d2 d3 d4 rest where
    h: "name = ''Pandora'' @ d1 @ ''s'' @ d2 @ ''_CF_v'' @ d3 @ ''d'' @ d4 @ ''.txt'' @ rest"
      "list_all is_digit d1" "d1 \<noteq> []" "list_all is_digit d2" "d2 \<noteq> []"
      "list_all is_digit d3" "d3 \<noteq> []" "list_all is_digit d4" "length d4 = 8"
    by blast
  have "spec_exact_match (''Pandora'' @ d1 @ ''s'' @ d2 @ ''_CF_v'' @ d3 @ ''d'' @ d4 @ ''.txt'')"
    unfolding spec_exact_match_iff using h(2-9) by blast
  moreover have "name = (''Pandora'' @ d1 @ ''s'' @ d2 @ ''_CF_v'' @ d3 @ ''d'' @ d4 @ ''.txt'') @ rest"
    using h(1) by simp
  ultimately show "\<exists>p rest. name = p @ rest \<and> spec_exact_match p" by blast
next
  assume "\<exists>p rest. name = p @ rest \<and> spec_exact_match p"
  then obtain p rest where p: "name = p @ rest" "spec_exact_match p" by blast
  from p(2) obtain d1 d2 d3 d4 where
    h: "p = ''Pandora'' @ d1 @ ''s'' @ d2 @ ''_CF_v'' @ d3 @ ''d'' @ d4 @ ''.txt''"
      "list_all is_digit d1" "d1 \<noteq> []" "list_all is_digit d2" "d2 \<noteq> []"
      "list_all is_digit d3" "d3 \<noteq> []" "list_all is_digit d4" "length d4 = 8"
    unfolding spec_exact_match_iff by blast
  from parse_filename_complete[OF h(2-9), of rest] p(1) h(1)
  show "parse_filename name \<noteq> None" by simp
qed

lemma digit_not_space: "is_digit c \<Longrightarrow> \<not> is_space c"
  by (auto simp: is_digit_def is_space_def)

lemma digit_not_sign: "is_digit c \<Longrightarrow> c \<noteq> CHR ''-'' \<and> c \<noteq> CHR ''+'' \<and> c \<noteq> CHR ''_''"
  by (auto simp: is_digit_def)

lemma py_strip_id:
  assumes "s \<noteq> []" "\<not> is_space (hd s)" "\<not> is_space (last s)"
  shows "py_strip s = s"
proof -
  from assms(1,2) have 1: "dropWhile is_space s = s" by (cases s) auto
  from assms(1,3) have 2: "dropWhile is_space (rev s) = rev s"
    by (cases s rule: rev_cases) auto
  show ?thesis by (simp add: py_strip_def 1 2)
qed

lemma py_in_first_char: "py_in (c # cs) s \<Longrightarrow> c \<in> set s"
  by (induction s) auto

lemma py_int_digits:
  assumes "list_all is_digit d" "d \<noteq> []" "length d \<le> 4300"
  shows "py_int d = Inr (int_of_digits d)"
proof -
  from assms(1,2) have hd: "is_digit (hd d)" and lst: "is_digit (last d)"
    by (auto simp: list_all_iff)
  have strip: "py_strip d = d"
    using assms(2) hd lst by (intro py_strip_id) (auto dest: digit_not_space)
  have nosign: "hd d \<noteq> CHR ''-''" "hd d \<noteq> CHR ''+''"
    using hd by (auto dest: digit_not_sign)
  have "CHR ''_'' \<notin> set d"
    using assms(1) by (auto simp: list_all_iff dest: digit_not_sign)
  then have nound: "\<not> py_in ''__'' d"
    by (auto dest: py_in_first_char)
  have all: "list_all (\<lambda>c. is_digit c \<or> c = CHR ''_'') d"
    using assms(1) by (auto simp: list_all_iff)
  have valid: "valid_int_body d"
    unfolding valid_int_body_def using assms(2) hd lst all nound by simp
  have filt: "filter is_digit d = d"
    using assms(1) by (simp add: list_all_iff)
  show ?thesis
    unfolding py_int_def Let_def strip
    using nosign valid filt assms(3) by simp
qed


section \<open>The Filename Parser and trailing characters\<close>

text \<open>
  Claim C1. The specification has every string that is not exactly of the form
  \<open>Pandora<digits>s<digits>_CF_v<digits>d<8 digits>.txt\<close> rejected, and names
  \<open>Pandora1s2_CF_v3d20230101.txt.txt\<close> as such a string. \<open>re.match\<close> anchors the pattern
  at the start only: that name is not an exact match, and \<open>parse_filename\<close> accepts it
  with the groups of its matching prefix.
\<close>

theorem parse_filename_trailing:
  "\<not> spec_exact_match ''Pandora1s2_CF_v3d20230101.txt.txt''
   \<and> parse_filename ''Pandora1s2_CF_v3d20230101.txt.txt'' = Some [''1'', ''2'', ''3'', ''20230101'']"
  by (simp add: spec_exact_match_def parse_filename_def filename_pattern_def is_digit_def)

section \<open>The health check\<close>

text \<open>
  With a failing probe the status of the answer is not 200.
\<close>

theorem health_check_probe_failure_counterexample:
  "snd (health_check (example_env\<lparr>all_fault := Some (SQLAlchemyError ''database is locked'')\<rparr>) []) \<noteq> 200"
  by (simp add: health_check_def query_all_def example_env_def)

text \<open>
  Claim C2, amended. When the database probe of \<open>/api/health\<close> raises, the view answers
  with the body \<open>{status: "unhealthy", details: str(e)}\<close> and the HTTP status 500.
\<close>

theorem health_check_probe_failure:
  "all_fault e = Some ex \<Longrightarrow>
   health_check e rows =
     (JObj [(''status'', JStr ''unhealthy''), (''details'', JStr (exn_str ex))], 500)"
  by (simp add: health_check_def query_all_def)

theorem health_check_probe_failure_witness:
  "all_fault (example_env\<lparr>all_fault := Some (SQLAlchemyError ''database is locked'')\<rparr>)
     = Some (SQLAlchemyError ''database is locked'')
   \<and> health_check (example_env\<lparr>all_fault := Some (SQLAlchemyError ''database is locked'')\<rparr>) []
     = (JObj [(''status'', JStr ''unhealthy''), (''details'', JStr ''database is locked'')], 500)"
  using health_check_probe_failure
    [of "example_env\<lparr>all_fault := Some (SQLAlchemyError ''database is locked'')\<rparr>"
        "SQLAlchemyError ''database is locked''" "[]"]
  by simp

section \<open>Aborting inside a try block\<close>

text \<open>
  Claim C3. The specification has \<open>/api/get_content\<close> answer 404 for a filename without a
  record and 400 for a request without the parameter. The view calls \<open>abort(404)\<close> and
  \<open>abort(400)\<close> inside its \<open>try\<close> block. What they raise never leaves the view: the search
  for a matching \<open>except\<close> clause raises \<open>AttributeError\<close> at the first clause, and Flask
  answers that unhandled exception through the handler registered for 500. Both requests
  are answered 500 with \<open>Internal Server Error\<close> and the library's description, and no
  request is ever answered 400 or 404.
\<close>

theorem get_content_unknown_is_500:
  "get_content example_env (Some ''unknown.txt'') [] =
     (JObj [(''error'', JStr ''Internal Server Error''),
            (''message'', JStr ''The server encountered an internal error and was unable to complete your request. Either the server is overloaded or there is an error in the application.'')],
      500)
   \<and> get_content example_env None [] =
     (JObj [(''error'', JStr ''Internal Server Error''),
            (''message'', JStr ''The server encountered an internal error and was unable to complete your request. Either the server is overloaded or there is an error in the application.'')],
      500)
   \<and> (snd (get_content e arg rows) = 200 \<or> snd (get_content e arg rows) = 500)"
proof -
  have a: "get_content example_env (Some ''unknown.txt'') [] =
     (JObj [(''error'', JStr ''Internal Server Error''),
            (''message'', JStr ''The server encountered an internal error and was unable to complete your request. Either the server is overloaded or there is an error in the application.'')],
      500)"
    by (simp add: get_content_def get_content_try_def query_first_def example_env_def
        get_content_except_def internal_server_error_def unhandled_description_def)
  have b: "get_content example_env None [] =
     (JObj [(''error'', JStr ''Internal Server Error''),
            (''message'', JStr ''The server encountered an internal error and was unable to complete your request. Either the server is overloaded or there is an error in the application.'')],
      500)"
    by (simp add: get_content_def get_content_try_def get_content_except_def
        internal_server_error_def unhandled_description_def)
  have c: "snd (get_content e arg rows) = 200 \<or> snd (get_content e arg rows) = 500"
  proof (cases "get_content_try e arg rows")
    case (Inr r)
    then have "snd r = 200"
      by (auto simp: get_content_try_def split: option.splits if_splits sum.splits)
    with Inr show ?thesis by (simp add: get_content_def)
  next
    case (Inl ex)
    then show ?thesis
      by (simp add: get_content_def get_content_except_def internal_server_error_def)
  qed
  from a b c show ?thesis by blast
qed


text \<open>
  Claim C4. The specification has \<open>/api/query\<close> answer 400 for a body that is empty,
  missing or not a list. The view calls \<open>abort(400)\<close> inside its \<open>try\<close> block, and the
  final \<open>except Exception\<close> clause catches it: an empty list, a null body and an object
  are answered 500, and no request is ever answered 400.
\<close>

theorem query_invalid_body_is_500:
  "query_calibration_data e (Inr (JArr [])) rows =
     unexpected_error (HTTPException 400 ''Invalid or missing keys in request body'')
   \<and> query_calibration_data e (Inr JNull) rows =
     unexpected_error (HTTPException 400 ''Invalid or missing keys in request body'')
   \<and> query_calibration_data e (Inr (JObj [(''a'', JStr ''b'')])) rows =
     unexpected_error (HTTPException 400 ''Invalid or missing keys in request body'')
   \<and> unexpected_error (HTTPException 400 ''Invalid or missing keys in request body'') =
     (JObj [(''error'', JStr ''An unexpected error occurred''),
            (''details'', JStr ''400 Bad Request: Invalid or missing keys in request body'')],
      500)
   \<and> (snd (query_calibration_data e body rows) = 200 \<or> snd (query_calibration_data e body rows) = 500)"
proof -
  have c: "snd (query_calibration_data e body rows) = 200 \<or> snd (query_calibration_data e body rows) = 500"
  proof (cases "query_try e body rows")
    case (Inr r)
    then have "snd r = 200"
      by (auto simp: query_try_def split: sum.splits if_splits)
    with Inr show ?thesis by (simp add: query_calibration_data_def)
  next
    case (Inl ex)
    then show ?thesis
      by (simp add: query_calibration_data_def database_error_def unexpected_error_def)
  qed
  show ?thesis
    using c
    by (simp add: query_calibration_data_def query_try_def unexpected_error_def str_of_nat.simps http_name_def)
qed

section \<open>The Content Extractor\<close>

text \<open>
  The loop of \<open>extract_file_details\<close> against the specification's wording: the
  membership test agrees with the search for the first position of the delimiter, the
  split cuts there, \<open>strip\<close> is the trim, and a run of assignments leaves for each key the
  value of the last one. The unpacking never raises, since a line that contains the
  delimiter splits in two.
\<close>

lemma prefix_take: "prefix l s \<longleftrightarrow> take (length l) s = l"
  by (metis append_eq_conv_conj prefix_def append_take_drop_id)

lemma find_map_comp: "find P (map f xs) = map_option f (find (\<lambda>x. P (f x)) xs)"
  by (induction xs) auto

lemma spec_first_arrow_Nil: "spec_first_arrow [] = None"
  by (simp add: spec_first_arrow_def)

lemma spec_first_arrow_Cons:
  "spec_first_arrow (c # cs) =
     (if prefix ''->'' (c # cs) then Some 0 else map_option Suc (spec_first_arrow cs))"
proof -
  have "[0..<length (c # cs)] = 0 # map Suc [0..<length cs]"
    by (simp add: upt_conv_Cons map_Suc_upt del: upt_Suc)
  then show ?thesis
    unfolding spec_first_arrow_def
    by (simp add: find_map_comp prefix_take del: upt_Suc)
qed

lemma py_in_spec: "py_in ''->'' s \<longleftrightarrow> spec_first_arrow s \<noteq> None"
  by (induction s) (auto simp: spec_first_arrow_Nil spec_first_arrow_Cons)

lemma split_first_spec:
  "split_first ''->'' s =
     (case spec_first_arrow s of None \<Rightarrow> [s] | Some i \<Rightarrow> [take i s, drop (i + 2) s])"
proof (induction s)
  case Nil
  then show ?case by (simp add: spec_first_arrow_Nil)
next
  case (Cons c cs)
  show ?case
  proof (cases "prefix ''->'' (c # cs)")
    case True
    then show ?thesis by (simp add: spec_first_arrow_Cons)
  next
    case False
    then show ?thesis
      using Cons.IH
      by (cases "spec_first_arrow cs") (simp_all add: spec_first_arrow_Cons)
  qed
qed

lemma py_strip_spec: "py_strip s = spec_trim s"
proof -
  define t where "t = dropWhile is_space s"
  have "rev t = takeWhile is_space (rev t) @ dropWhile is_space (rev t)" by simp
  then have "t = rev (dropWhile is_space (rev t)) @ rev (takeWhile is_space (rev t))"
    by (metis rev_append rev_rev_ident)
  then have "take (length t - length (takeWhile is_space (rev t))) t = rev (dropWhile is_space (rev t))"
    by (metis append_eq_conv_conj length_rev length_append add_diff_cancel_right')
  then show ?thesis
    by (simp add: py_strip_def spec_trim_def t_def Let_def)
qed

lemma extract_line_spec:
  "extract_line data line =
     Inr (case spec_line line of None \<Rightarrow> data | Some (k, v) \<Rightarrow> AList.update k v data)"
  by (cases "spec_first_arrow line")
     (simp_all add: extract_line_def split_first_spec py_in_spec spec_line_def py_strip_spec)

lemma extract_lines_spec:
  "extract_lines data ls =
     Inr (foldl (\<lambda>d l. case spec_line l of None \<Rightarrow> d | Some (k, v) \<Rightarrow> AList.update k v d) data ls)"
  by (induction ls arbitrary: data) (simp_all add: extract_line_spec)

lemma map_of_fold_update:
  "map_of (foldl (\<lambda>d l. case f l of None \<Rightarrow> d | Some (k, v) \<Rightarrow> AList.update k v d) data ls) k =
     (case filter (\<lambda>p. fst p = k) (List.map_filter f ls) of
        [] \<Rightarrow> map_of data k
      | ps \<Rightarrow> Some (snd (last ps)))"
proof (induction ls arbitrary: data)
  case Nil
  then show ?case by (simp add: List.map_filter_simps)
next
  case (Cons l ls)
  show ?case
  proof (cases "f l")
    case None
    then show ?thesis using Cons.IH[of data] by (simp add: List.map_filter_simps)
  next
    case (Some p)
    obtain k' v where p: "p = (k', v)" by (cases p)
    show ?thesis
      using Cons.IH[of "AList.update k' v data"] Some p
      by (auto simp: List.map_filter_simps update_conv' split: list.splits)
  qed
qed

lemma distinct_fold_update:
  "distinct (map fst data) \<Longrightarrow>
   distinct (map fst (foldl (\<lambda>d l. case f l of None \<Rightarrow> d | Some (k, v) \<Rightarrow> AList.update k v d) data ls))"
  by (induction ls arbitrary: data) (auto simp: distinct_update split: option.splits)


text \<open>
  Claim C5. For every input text the Content Extractor returns, without raising, the
  mapping the specification describes: the lines are those of \<open>splitlines\<close>; a line that
  contains \<open>->\<close> is cut at the first occurrence, both sides are trimmed, and the trimmed
  key is mapped to the trimmed value, the last such line deciding for each key; lines
  without \<open>->\<close> contribute nothing. The empty text gives the empty mapping, and
  \<open>a -> 1\<close>, \<open>b->2\<close>, \<open>ignored\<close>, \<open>a -> 3\<close> on four lines give \<open>{a: 3, b: 2}\<close>.
\<close>

theorem extract_file_details_refines:
  "(\<exists>d. extract_file_details text = Inr d \<and> map_of d = spec_extract text \<and> distinct (map fst d))
   \<and> extract_file_details [] = Inr []
   \<and> extract_file_details ''a -> 1\<newline>b->2\<newline>ignored\<newline>a -> 3'' = Inr [(''a'', ''3''), (''b'', ''2'')]"
proof -
  let ?d = "foldl (\<lambda>d l. case spec_line l of None \<Rightarrow> d | Some (k, v) \<Rightarrow> AList.update k v d) [] (splitlines text)"
  have 1: "extract_file_details text = Inr ?d"
    by (simp add: extract_file_details_def extract_lines_spec)
  have 2: "map_of ?d = spec_extract text"
    by (rule ext) (simp add: map_of_fold_update spec_extract_def split: list.splits)
  have 3: "distinct (map fst ?d)"
    by (rule distinct_fold_update) simp
  have 4: "extract_file_details [] = Inr []"
    by (simp add: extract_file_details_def splitlines_def)
  have 5: "extract_file_details ''a -> 1\<newline>b->2\<newline>ignored\<newline>a -> 3'' = Inr [(''a'', ''3''), (''b'', ''2'')]"
    by (simp add: extract_file_details_def splitlines_def is_linebreak_def extract_line_def
        py_strip_def is_space_def)
  from 1 2 3 4 5 show ?thesis by blast
qed

lemma spec_first_arrow_after_spaces:
  "list_all is_space w \<Longrightarrow> spec_first_arrow (w @ ''->'' @ r) = Some (length w)"
proof (induction w)
  case Nil
  then show ?case by (simp add: spec_first_arrow_Cons)
next
  case (Cons c w)
  then have "c \<noteq> CHR ''-''" by (auto simp: is_space_def)
  with Cons show ?case by (simp add: spec_first_arrow_Cons)
qed

lemma spec_trim_spaces: "list_all is_space w \<Longrightarrow> spec_trim w = []"
  by (simp add: spec_trim_def list_all_iff Let_def dropWhile_eq_Nil_conv)

lemma spec_line_after_spaces:
  "list_all is_space w \<Longrightarrow> spec_line (w @ ''->'' @ r) = Some ([], spec_trim r)"
  using spec_first_arrow_after_spaces[of w r] spec_trim_spaces[of w]
  by (simp add: spec_line_def)

lemma splitlines_from_no_break:
  "\<not> list_ex is_linebreak s \<Longrightarrow> splitlines_from cur s = (if cur = [] \<and> s = [] then [] else [rev cur @ s])"
  by (induction cur s rule: splitlines_from.induct) auto

lemma splitlines_single: "\<not> list_ex is_linebreak s \<Longrightarrow> s \<noteq> [] \<Longrightarrow> splitlines s = [s]"
  by (simp add: splitlines_def splitlines_from_no_break)


text \<open>
  Claim C10. The Content Extractor does not filter out empty keys. A line whose first
  \<open>->\<close> has only whitespace in front of it stores the empty string as key, with the
  trimmed remainder as value; a text that has such a line among its lines has the empty
  key in its mapping; and when such a line is the whole text, the mapping is that one
  entry. So \<open>-> v\<close> gives \<open>{"": "v"}\<close> and \<open>->\<close> gives \<open>{"": ""}\<close>.
\<close>

theorem extract_keeps_empty_key:
  assumes "list_all is_space w"
  shows "extract_line data (w @ ''->'' @ r) = Inr (AList.update [] (py_strip r) data)
         \<and> (w @ ''->'' @ r \<in> set (splitlines text) \<longrightarrow>
              (\<exists>d v. extract_file_details text = Inr d \<and> map_of d [] = Some v))
         \<and> (\<not> list_ex is_linebreak (w @ ''->'' @ r) \<longrightarrow>
              extract_file_details (w @ ''->'' @ r) = Inr [([], py_strip r)])"
proof -
  have 1: "extract_line data (w @ ''->'' @ r) = Inr (AList.update [] (py_strip r) data)" for data
    using spec_line_after_spaces[OF assms, of r]
    by (simp add: extract_line_spec py_strip_spec)
  have 2: "\<exists>d v. extract_file_details text = Inr d \<and> map_of d [] = Some v"
    if "w @ ''->'' @ r \<in> set (splitlines text)"
  proof -
    let ?d = "foldl (\<lambda>d l. case spec_line l of None \<Rightarrow> d | Some (k, v) \<Rightarrow> AList.update k v d) [] (splitlines text)"
    from that have "([], spec_trim r) \<in> set (List.map_filter spec_line (splitlines text))"
      using spec_line_after_spaces[OF assms, of r]
      by (force simp: List.map_filter_def)
    then have "filter (\<lambda>p. fst p = []) (List.map_filter spec_line (splitlines text)) \<noteq> []"
      by (force simp: filter_empty_conv)
    then have "\<exists>v. map_of ?d [] = Some v"
      by (simp add: map_of_fold_update split: list.splits)
    then show ?thesis
      by (simp add: extract_file_details_def extract_lines_spec)
  qed
  have 3: "extract_file_details (w @ ''->'' @ r) = Inr [([], py_strip r)]"
    if "\<not> list_ex is_linebreak (w @ ''->'' @ r)"
  proof -
    have "splitlines (w @ ''->'' @ r) = [w @ ''->'' @ r]"
      using that by (intro splitlines_single) simp_all
    then show ?thesis
      using 1[of "[]"] by (simp add: extract_file_details_def)
  qed
  from 1 2 3 show ?thesis by blast
qed

theorem extract_keeps_empty_key_witness:
  "list_all is_space '' ''
   \<and> '' '' @ ''->'' @ '' v'' \<in> set (splitlines ''x -> 1\<newline> -> v'')
   \<and> \<not> list_ex is_linebreak ('' '' @ ''->'' @ '' v'')
   \<and> extract_line [] ('' '' @ ''->'' @ '' v'') = Inr [([], ''v'')]
   \<and> (\<exists>d v. extract_file_details ''x -> 1\<newline> -> v'' = Inr d \<and> map_of d [] = Some v)
   \<and> extract_file_details ('' '' @ ''->'' @ '' v'') = Inr [([], ''v'')]
   \<and> extract_file_details ''-> v'' = Inr [([], ''v'')]
   \<and> extract_file_details ''->'' = Inr [([], [])]"
proof -
  have a: "list_all is_space '' ''" by (simp add: is_space_def)
  have b: "'' '' @ ''->'' @ '' v'' \<in> set (splitlines ''x -> 1\<newline> -> v'')"
    by (simp add: splitlines_def is_linebreak_def)
  have b': "\<not> list_ex is_linebreak ('' '' @ ''->'' @ '' v'')"
    by (simp add: is_linebreak_def)
  have c: "py_strip '' v'' = ''v''" by (simp add: py_strip_def is_space_def)
  have d: "extract_file_details ''-> v'' = Inr [([], ''v'')]"
    by (simp add: extract_file_details_def splitlines_def is_linebreak_def extract_line_def
        py_strip_def is_space_def)
  have e: "extract_file_details ''->'' = Inr [([], [])]"
    by (simp add: extract_file_details_def splitlines_def is_linebreak_def extract_line_def
        py_strip_def is_space_def)
  from extract_keeps_empty_key[OF a, of "[]" "'' v''" "''x -> 1\<newline> -> v''"] a b b' c d e
  show ?thesis by simp
qed

section \<open>Filter by keys\<close>

text \<open>
  On a list of string keys the dict comprehension is a run of conditional assignments;
  read as a mapping, its result is the record's content restricted to the requested
  keys, and it is empty exactly when no requested key is in the content.
\<close>

lemma matched_content_strings:
  "matched_content c (map JStr ks) acc =
     Inr (foldl (\<lambda>a k. if map_of c k \<noteq> None then AList.update k (dict_get c k) a else a) acc ks)"
  by (induction ks arbitrary: acc) simp_all

lemma map_of_matched:
  "map_of (foldl (\<lambda>a k. if map_of c k \<noteq> None then AList.update k (dict_get c k) a else a) acc ks) k =
     (if k \<in> set ks \<and> map_of c k \<noteq> None then map_option JStr (map_of c k) else map_of acc k)"
proof (induction ks arbitrary: acc)
  case Nil
  then show ?case by simp
next
  case (Cons x ks)
  show ?case
    using Cons.IH[of "if map_of c x \<noteq> None then AList.update x (dict_get c x) acc else acc"]
    by (auto simp: update_conv' dict_get_def)
qed

lemma matched_restrict:
  "map_of (foldl (\<lambda>a k. if map_of c k \<noteq> None then AList.update k (dict_get c k) a else a) [] ks) =
     (map_option JStr \<circ> map_of c) |` set ks"
  by (rule ext) (simp add: map_of_matched restrict_map_def del: not_None_eq)

lemma matched_nonempty:
  "foldl (\<lambda>a k. if map_of c k \<noteq> None then AList.update k (dict_get c k) a else a) [] ks \<noteq> [] \<longleftrightarrow>
     list_ex (\<lambda>k. map_of c k \<noteq> None) ks"
proof -
  let ?m = "foldl (\<lambda>a k. if map_of c k \<noteq> None then AList.update k (dict_get c k) a else a) [] ks"
  have "?m = [] \<longleftrightarrow> map_of ?m = Map.empty" by (simp add: map_of_eq_empty_iff)
  also have "\<dots> \<longleftrightarrow> (\<forall>k. \<not> (k \<in> set ks \<and> map_of c k \<noteq> None))"
  proof
    assume e: "map_of ?m = Map.empty"
    show "\<forall>k. \<not> (k \<in> set ks \<and> map_of c k \<noteq> None)"
    proof (intro allI notI)
      fix k assume k: "k \<in> set ks \<and> map_of c k \<noteq> None"
      then have "map_of ?m k = map_option JStr (map_of c k)"
        by (simp add: map_of_matched del: not_None_eq)
      with k e show False by auto
    qed
  next
    assume "\<forall>k. \<not> (k \<in> set ks \<and> map_of c k \<noteq> None)"
    then show "map_of ?m = Map.empty"
      by (intro ext) (simp add: map_of_matched del: not_None_eq)
  qed
  finally show ?thesis by (auto simp: list_ex_iff)
qed

lemma query_rows_strings:
  assumes "\<And>r. r \<in> set rows \<Longrightarrow> bson_loads e (content r) = Inr (c r)"
  shows "query_rows e (map JStr ks) rows resp =
     Inr (resp @ map (\<lambda>r. query_item r (foldl (\<lambda>a k. if map_of (c r) k \<noteq> None then AList.update k (dict_get (c r) k) a else a) [] ks))
                  (filter (\<lambda>r. list_ex (\<lambda>k. map_of (c r) k \<noteq> None) ks) rows))"
  using assms
proof (induction rows arbitrary: resp)
  case Nil
  then show ?case by simp
next
  case (Cons r rows)
  have dec: "get_content_of e r = Inr (c r)" using Cons.prems by (simp add: get_content_of_def)
  have rest: "\<And>r'. r' \<in> set rows \<Longrightarrow> bson_loads e (content r') = Inr (c r')"
    using Cons.prems by simp
  show ?case
    using Cons.IH[OF rest] matched_nonempty[of "c r" ks]
    by (simp add: dec matched_content_strings del: not_None_eq)
qed

lemma matched_distinct:
  "distinct (map fst acc) \<Longrightarrow>
   distinct (map fst (foldl (\<lambda>a k. if map_of c k \<noteq> None then AList.update k (dict_get c k) a else a) acc ks))"
  by (induction ks arbitrary: acc) (simp_all add: distinct_update del: not_None_eq)


text \<open>
  Claim C7. For every table whose rows decode (\<open>c r\<close> is the content mapping of row
  \<open>r\<close>) and every non-empty list of string keys, when the query over the table does not
  fail, \<open>/api/query\<close> answers 200 with one item for each row whose content has at least one
  of the keys, in table order: an object of the row's filename and the mapping \<open>m r\<close>,
  which is the content restricted to the requested keys, each key once. Rows with no
  matching key are left out.
\<close>

theorem query_filters_by_keys:
  assumes "ks \<noteq> []" "all_fault e = None"
    and "\<And>r. r \<in> set rows \<Longrightarrow> bson_loads e (content r) = Inr (c r)"
  shows "\<exists>m. query_calibration_data e (Inr (JArr (map JStr ks))) rows =
           (JArr (map (\<lambda>r. JObj [(''filename'', JStr (filename r)), (''matched_content'', JObj (m r))])
                   (filter (\<lambda>r. list_ex (\<lambda>k. map_of (c r) k \<noteq> None) ks) rows)), 200)
         \<and> list_all (\<lambda>r. map_of (m r) = (map_option JStr \<circ> map_of (c r)) |` set ks
                          \<and> distinct (map fst (m r))) rows"
proof -
  let ?m = "\<lambda>r. foldl (\<lambda>a k. if map_of (c r) k \<noteq> None then AList.update k (dict_get (c r) k) a else a) [] ks"
  have "query_try e (Inr (JArr (map JStr ks))) rows =
          Inr (JArr (map (\<lambda>r. query_item r (?m r))
                   (filter (\<lambda>r. list_ex (\<lambda>k. map_of (c r) k \<noteq> None) ks) rows)), 200)"
    using assms(1,2) query_rows_strings[of rows e c ks "[]", OF assms(3)]
    by (simp add: query_try_def query_all_def del: not_None_eq)
  then have 1: "query_calibration_data e (Inr (JArr (map JStr ks))) rows =
          (JArr (map (\<lambda>r. JObj [(''filename'', JStr (filename r)), (''matched_content'', JObj (?m r))])
                   (filter (\<lambda>r. list_ex (\<lambda>k. map_of (c r) k \<noteq> None) ks) rows)), 200)"
    by (simp add: query_calibration_data_def query_item_def)
  have 2: "list_all (\<lambda>r. map_of (?m r) = (map_option JStr \<circ> map_of (c r)) |` set ks
                          \<and> distinct (map fst (?m r))) rows"
    by (simp add: list_all_iff matched_restrict matched_distinct del: not_None_eq)
  show ?thesis
    by (rule exI[of _ ?m]) (rule conjI[OF 1 2])
qed

theorem query_filters_by_keys_witness:
  "[''a'', ''b'', ''c''] \<noteq> [] \<and> all_fault example_env = None
   \<and> bson_loads example_env (content (example_row ''F.txt'')) = Inr [(''a'', ''1''), (''b'', ''2'')]
   \<and> (\<exists>m. query_calibration_data example_env (Inr (JArr (map JStr [''a'', ''b'', ''c''])))
             [example_row ''F.txt'', example_row ''G.txt''] =
           (JArr (map (\<lambda>r. JObj [(''filename'', JStr (filename r)), (''matched_content'', JObj (m r))])
                   (filter (\<lambda>r. list_ex (\<lambda>k. map_of [(''a'', ''1''), (''b'', ''2'')] k \<noteq> None) [''a'', ''b'', ''c''])
                      [example_row ''F.txt'', example_row ''G.txt''])), 200)
         \<and> list_all (\<lambda>r. map_of (m r) = (map_option JStr \<circ> map_of [(''a'', ''1''), (''b'', ''2'')]) |` set [''a'', ''b'', ''c'']
                          \<and> distinct (map fst (m r)))
              [example_row ''F.txt'', example_row ''G.txt''])
   \<and> query_calibration_data example_env (Inr (JArr [JStr ''a'', JStr ''b'', JStr ''c'']))
        [example_row ''F.txt'', example_row ''G.txt''] =
       (JArr [JObj [(''filename'', JStr ''F.txt''),
                    (''matched_content'', JObj [(''a'', JStr ''1''), (''b'', JStr ''2'')])],
              JObj [(''filename'', JStr ''G.txt''),
                    (''matched_content'', JObj [(''a'', JStr ''1''), (''b'', JStr ''2'')])]], 200)
   \<and> query_calibration_data example_env (Inr (JArr [JStr ''a'', JStr ''c''])) [example_row ''F.txt''] =
       (JArr [JObj [(''filename'', JStr ''F.txt''), (''matched_content'', JObj [(''a'', JStr ''1'')])]], 200)
   \<and> query_calibration_data example_env (Inr (JArr [JStr ''c''])) [example_row ''F.txt''] = (JArr [], 200)"
proof -
  have h1: "[''a'', ''b'', ''c''] \<noteq> []" by simp
  have h2: "all_fault example_env = None" by (simp add: example_env_def)
  have dec: "bson_loads example_env (content (example_row n)) = Inr [(''a'', ''1''), (''b'', ''2'')]" for n
    by (simp add: example_env_def example_row_def extract_file_details_def splitlines_def
        is_linebreak_def extract_line_def py_strip_def is_space_def)
  have h3: "\<And>r. r \<in> set [example_row ''F.txt'', example_row ''G.txt''] \<Longrightarrow>
              bson_loads example_env (content r) = Inr ((\<lambda>r. [(''a'', ''1''), (''b'', ''2'')]) r)"
    using dec by auto
  note w = query_filters_by_keys[OF h1 h2 h3]
  have fn: "filename (example_row n) = n" for n by (simp add: example_row_def)
  have ev0: "query_calibration_data example_env (Inr (JArr [JStr ''a'', JStr ''b'', JStr ''c'']))
        [example_row ''F.txt'', example_row ''G.txt''] =
       (JArr [JObj [(''filename'', JStr ''F.txt''),
                    (''matched_content'', JObj [(''a'', JStr ''1''), (''b'', JStr ''2'')])],
              JObj [(''filename'', JStr ''G.txt''),
                    (''matched_content'', JObj [(''a'', JStr ''1''), (''b'', JStr ''2'')])]], 200)"
    by (simp add: query_calibration_data_def query_try_def query_all_def h2 get_content_of_def dec
        dict_get_def query_item_def fn)
  have ev1: "query_calibration_data example_env (Inr (JArr [JStr ''a'', JStr ''c''])) [example_row ''F.txt''] =
       (JArr [JObj [(''filename'', JStr ''F.txt''), (''matched_content'', JObj [(''a'', JStr ''1'')])]], 200)"
    by (simp add: query_calibration_data_def query_try_def query_all_def h2 get_content_of_def dec
        dict_get_def query_item_def fn)
  have ev2: "query_calibration_data example_env (Inr (JArr [JStr ''c''])) [example_row ''F.txt''] = (JArr [], 200)"
    by (simp add: query_calibration_data_def query_try_def query_all_def h2 get_content_of_def dec
        dict_get_def query_item_def fn)
  from h1 h2 dec[of "''F.txt''"] w ev0 ev1 ev2 show ?thesis by blast
qed

section \<open>One round of the ingestion loop\<close>

text \<open>
  A matching name has four groups, so the unpacking succeeds, and the extractor never
  raises. What a round does is then decided by the read, the flush, the query and the
  building of the row, in this order.
\<close>

lemma parse_four: "parse_filename n = Some gs \<Longrightarrow> \<exists>a b c d. gs = [a, b, c, d]"
  using parse_filename_sound by blast

lemma extract_total: "\<exists>fd. extract_file_details tx = Inr fd"
  by (simp add: extract_file_details_def extract_lines_spec)

lemma find_filename_None: "find (\<lambda>r. filename r = n) rows = None \<longleftrightarrow> n \<notin> filename ` set rows"
  by (auto simp: find_None_iff)

lemma query_first_quiet:
  "first_fault e n = None \<Longrightarrow>
   query_first e rows n = Inr (find (\<lambda>r. filename r = n) rows)"
  by (simp add: query_first_def)

lemma query_first_fault:
  "first_fault e n = Some ex \<Longrightarrow> query_first e rows n = Inl ex"
  by (simp add: query_first_def)

lemma process_entry_ignored:
  "\<not> endswith n ''.txt'' \<or> parse_filename n = None \<Longrightarrow> process_entry e db st n = st"
  by (auto simp: process_entry_def)

lemma process_entry_unfold:
  assumes "endswith n ''.txt''" "parse_filename n = Some gs"
  shows "process_entry e db st n =
     (case read_file e n of
        Inl ex \<Rightarrow> count_error st n ex
      | Inr tx \<Rightarrow>
          (case autoflush st of
             (Some ex, st') \<Rightarrow> count_error st' n ex
           | (None, st') \<Rightarrow>
               (case first_fault e n of
                  Some ex \<Rightarrow> count_error st' n ex
                | None \<Rightarrow>
                    if n \<in> filename ` set (db @ flushed st')
                    then st'\<lparr>skipped := skipped st' + 1\<rparr>
                    else (case built_row e n of
                            Inl ex \<Rightarrow> count_error st' n ex
                          | Inr r \<Rightarrow> st'\<lparr>pending := pending st' @ [r], added := added st' + 1\<rparr>))))"
proof -
  from parse_four[OF assms(2)] obtain a b c d where gs: "gs = [a, b, c, d]" by blast
  show ?thesis
  proof (cases "read_file e n")
    case (Inl ex)
    then show ?thesis using assms gs by (simp add: process_entry_def try_entry_def)
  next
    case (Inr tx)
    obtain fd where fd: "extract_file_details tx = Inr fd" using extract_total by blast
    have br: "built_row e n = new_data e n a b c d fd"
      using assms(2) gs Inr fd by (simp add: built_row_def)
    obtain fx st' where af: "autoflush st = (fx, st')" by (cases "autoflush st")
    show ?thesis
    proof (cases fx)
      case (Some ex)
      then show ?thesis
        using assms gs Inr fd af
        by (simp add: process_entry_def try_entry_def session_first_def)
    next
      case None
      show ?thesis
      proof (cases "first_fault e n")
        case (Some ex)
        then show ?thesis
          using assms gs Inr fd af None
          by (simp add: process_entry_def try_entry_def session_first_def query_first_fault)
      next
        case ff: None
        show ?thesis
        proof (cases "n \<in> filename ` set (db @ flushed st')")
          case True
          then obtain r0 where "find (\<lambda>r. filename r = n) (db @ flushed st') = Some r0"
            using find_filename_None[of n "db @ flushed st'"] by (cases "find (\<lambda>r. filename r = n) (db @ flushed st')") auto
          then show ?thesis
            using assms gs Inr fd af None ff True
            by (simp add: process_entry_def try_entry_def session_first_def query_first_quiet)
        next
          case False
          then have "find (\<lambda>r. filename r = n) (db @ flushed st') = None"
            using find_filename_None[of n "db @ flushed st'"] by simp
          then show ?thesis
            using assms gs Inr fd af None ff False br
            by (cases "new_data e n a b c d fd")
               (simp_all add: process_entry_def try_entry_def session_first_def query_first_quiet)
        qed
      qed
    qed
  qed
qed

lemma autoflush_flushable: "flushable st \<Longrightarrow> autoflush st = (None, flush_rows st)"
  by (simp add: autoflush_def flushable_def)

lemma autoflush_not_flushable:
  "\<not> flushable st \<Longrightarrow> \<exists>ex st'. autoflush st = (Some ex, st') \<and> \<not> flushable st'"
  by (auto simp: autoflush_def flushable_def)

lemma flushable_count_error [simp]: "flushable (count_error st n ex) = flushable st"
  by (simp add: flushable_def count_error_def)

lemma not_flushable_step:
  assumes "\<not> flushable st"
  shows "\<not> flushable (process_entry e db st n)"
proof (cases "\<not> endswith n ''.txt'' \<or> parse_filename n = None")
  case True
  then show ?thesis using assms by (simp add: process_entry_ignored)
next
  case False
  then obtain gs where p: "endswith n ''.txt''" "parse_filename n = Some gs" by auto
  from autoflush_not_flushable[OF assms] obtain ex st' where
    af: "autoflush st = (Some ex, st')" "\<not> flushable st'" by blast
  show ?thesis
    using assms af
    by (cases "read_file e n") (simp_all add: process_entry_unfold[OF p])
qed

lemma not_flushable_loop:
  "\<not> flushable st \<Longrightarrow> \<not> flushable (ingest_loop e db st es)"
  by (induction es arbitrary: st) (simp_all add: not_flushable_step)

lemma flushable_loop_start: "flushable (ingest_loop e db st es) \<Longrightarrow> flushable st"
  using not_flushable_loop by blast

lemma built_row_filename: "built_row e n = Inr r \<Longrightarrow> filename r = n"
  by (auto simp: built_row_def new_data_def split: option.splits list.splits sum.splits)

lemma built_row_env:
  assumes "read_file e2 = read_file e1" "bson_dumps e2 = bson_dumps e1"
  shows "built_row e2 n = built_row e1 n"
proof -
  have "new_data e2 = new_data e1"
    by (intro ext) (simp add: new_data_def assms(2) split: sum.splits)
  then show ?thesis
    by (simp add: built_row_def assms(1) split: option.splits list.splits sum.splits)
qed

lemma process_entry_flushable:
  assumes "flushable st"
  shows "process_entry e db st n =
    (if \<not> endswith n ''.txt'' \<or> parse_filename n = None then st
     else case read_file e n of
            Inl ex \<Rightarrow> count_error st n ex
          | Inr tx \<Rightarrow>
              (case first_fault e n of
                 Some ex \<Rightarrow> count_error (flush_rows st) n ex
               | None \<Rightarrow>
                   if n \<in> filename ` set (db @ session_rows st)
                   then (flush_rows st)\<lparr>skipped := skipped st + 1\<rparr>
                   else (case built_row e n of
                           Inl ex \<Rightarrow> count_error (flush_rows st) n ex
                         | Inr r \<Rightarrow> (flush_rows st)\<lparr>pending := [r], added := added st + 1\<rparr>)))"
proof (cases "\<not> endswith n ''.txt'' \<or> parse_filename n = None")
  case True
  then show ?thesis by (simp add: process_entry_ignored)
next
  case False
  then obtain gs where p: "endswith n ''.txt''" "parse_filename n = Some gs" by auto
  have f: "flushed (flush_rows st) = session_rows st" "pending (flush_rows st) = []"
    "skipped (flush_rows st) = skipped st" "added (flush_rows st) = added st"
    by (simp_all add: flush_rows_def session_rows_def)
  show ?thesis
    using p
    by (simp add: process_entry_unfold[OF p] autoflush_flushable[OF assms] f
        split: sum.splits option.splits)
qed

text \<open>
  A session whose flush would fail stays that way, so a run that ends with a successful
  flush has gone through states that could all be flushed. The rows of the session only
  grow, by rows built for names that had none. The last lemma runs the loop twice in
  step: once from a table \<open>db\<close>, once from a table that holds every name the first run
  ends with.
\<close>

lemma flush_rows_fields [simp]:
  "added (flush_rows st) = added st" "skipped (flush_rows st) = skipped st"
  "errors (flush_rows st) = errors st" "error_messages (flush_rows st) = error_messages st"
  "flushed (flush_rows st) = session_rows st" "pending (flush_rows st) = []"
  "broken (flush_rows st) = broken st" "session_rows (flush_rows st) = session_rows st"
  by (simp_all add: flush_rows_def session_rows_def)

lemma count_error_fields [simp]:
  "added (count_error st n ex) = added st" "skipped (count_error st n ex) = skipped st"
  "errors (count_error st n ex) = errors st + 1"
  "error_messages (count_error st n ex) = error_messages st @ [error_message n ex]"
  "flushed (count_error st n ex) = flushed st" "pending (count_error st n ex) = pending st"
  "broken (count_error st n ex) = broken st" "session_rows (count_error st n ex) = session_rows st"
  by (simp_all add: count_error_def session_rows_def)

lemma flush_rows_id: "pending st = [] \<Longrightarrow> flush_rows st = st"
  by (simp add: flush_rows_def)

lemma session_rows_step:
  assumes "flushable st"
  shows "\<exists>S. session_rows (process_entry e db st n) = session_rows st @ S
           \<and> (S = [] \<or> (\<exists>r. S = [r] \<and> built_row e n = Inr r \<and> filename r = n
                            \<and> n \<notin> filename ` set (db @ session_rows st)))"
proof -
  have e0: "session_rows (process_entry e db st n) = session_rows st @ []
            \<Longrightarrow> ?thesis" by blast
  show ?thesis
  proof (cases "\<not> endswith n ''.txt'' \<or> parse_filename n = None")
    case True
    then show ?thesis by (intro e0) (simp add: process_entry_ignored)
  next
    case False
    note pf = process_entry_flushable[OF assms, of e db n]
    show ?thesis
    proof (cases "read_file e n")
      case (Inl ex)
      with False show ?thesis by (intro e0) (simp add: pf)
    next
      case (Inr tx)
      show ?thesis
      proof (cases "first_fault e n")
        case (Some ex)
        with False Inr show ?thesis by (intro e0) (simp add: pf)
      next
        case None
        show ?thesis
        proof (cases "n \<in> filename ` set (db @ session_rows st)")
          case True
          with False Inr None show ?thesis
            by (intro e0) (simp add: pf session_rows_def)
        next
          case nex: False
          show ?thesis
          proof (cases "built_row e n")
            case (Inl ex)
            with False Inr None nex show ?thesis by (intro e0) (simp add: pf)
          next
            case r: (Inr r)
            have "session_rows (process_entry e db st n) = session_rows st @ [r]"
              using False Inr None nex r by (simp add: pf session_rows_def)
            with r nex built_row_filename[OF r] show ?thesis by blast
          qed
        qed
      qed
    qed
  qed
qed

lemma session_rows_loop:
  assumes "flushable (ingest_loop e db st es)"
  shows "\<exists>S. session_rows (ingest_loop e db st es) = session_rows st @ S
           \<and> (\<forall>r\<in>set S. filename r \<in> set es \<and> built_row e (filename r) = Inr r)"
  using assms
proof (induction es arbitrary: st)
  case Nil
  then show ?case by simp
next
  case (Cons n es)
  let ?t = "process_entry e db st n"
  from Cons.prems have ft: "flushable (ingest_loop e db ?t es)" by simp
  then have "flushable ?t" by (rule flushable_loop_start)
  then have fs: "flushable st" using not_flushable_step by blast
  from session_rows_step[OF fs, of e db n] obtain S0 where S0:
    "session_rows ?t = session_rows st @ S0"
    "S0 = [] \<or> (\<exists>r. S0 = [r] \<and> built_row e n = Inr r \<and> filename r = n
                            \<and> n \<notin> filename ` set (db @ session_rows st))" by blast
  from Cons.IH[OF ft] obtain S1 where S1:
    "session_rows (ingest_loop e db ?t es) = session_rows ?t @ S1"
    "\<forall>r\<in>set S1. filename r \<in> set es \<and> built_row e (filename r) = Inr r" by blast
  have "session_rows (ingest_loop e db st (n # es)) = session_rows st @ (S0 @ S1)"
    using S0(1) S1(1) by simp
  moreover have "\<forall>r\<in>set (S0 @ S1). filename r \<in> set (n # es) \<and> built_row e (filename r) = Inr r"
    using S0(2) S1(2) by auto
  ultimately show ?case by blast
qed

lemma distinct_loop:
  assumes "flushable (ingest_loop e db st es)" "distinct (map filename (db @ session_rows st))"
  shows "distinct (map filename (db @ session_rows (ingest_loop e db st es)))"
  using assms
proof (induction es arbitrary: st)
  case Nil
  then show ?case by simp
next
  case (Cons n es)
  let ?t = "process_entry e db st n"
  from Cons.prems have ft: "flushable (ingest_loop e db ?t es)" by simp
  then have "flushable ?t" by (rule flushable_loop_start)
  then have fs: "flushable st" using not_flushable_step by blast
  from session_rows_step[OF fs, of e db n] obtain S0 where S0:
    "session_rows ?t = session_rows st @ S0"
    "S0 = [] \<or> (\<exists>r. S0 = [r] \<and> built_row e n = Inr r \<and> filename r = n
                            \<and> n \<notin> filename ` set (db @ session_rows st))" by blast
  have "distinct (map filename (db @ session_rows ?t))"
  proof (cases "S0 = []")
    case True
    with S0(1) Cons.prems(2) show ?thesis by simp
  next
    case False
    with S0(2) obtain r where r: "S0 = [r]" "filename r = n"
      "n \<notin> filename ` set (db @ session_rows st)" by blast
    have "distinct (map filename ((db @ session_rows st) @ [r]))"
      using Cons.prems(2) r(2,3) by (simp only: map_append distinct_append) auto
    with S0(1) r(1) show ?thesis by simp
  qed
  from Cons.IH[OF ft this] show ?case by simp
qed

lemma second_run:
  assumes env: "read_file e2 = read_file e1" "bson_dumps e2 = bson_dumps e1"
    and inv: "\<forall>m\<in>filename ` set D. m \<in> filename ` set db \<or> \<not> isl (built_row e1 m)"
    and quiet: "\<forall>x\<in>set es. first_fault e1 x = None \<and> first_fault e2 x = None"
    and fin: "flushable (ingest_loop e1 db st1 es)"
    and sub: "filename ` set (db @ session_rows (ingest_loop e1 db st1 es)) \<subseteq> filename ` set D"
    and s2: "pending st2 = []" "\<not> broken st2" "filename ` set (flushed st2) \<subseteq> filename ` set D"
  shows "\<exists>a s ms.
           added (ingest_loop e1 db st1 es) = added st1 + a
           \<and> skipped (ingest_loop e1 db st1 es) = skipped st1 + s
           \<and> errors (ingest_loop e1 db st1 es) = errors st1 + length ms
           \<and> error_messages (ingest_loop e1 db st1 es) = error_messages st1 @ ms
           \<and> ingest_loop e2 D st2 es =
               st2\<lparr>skipped := skipped st2 + (a + s), errors := errors st2 + length ms,
                   error_messages := error_messages st2 @ ms\<rparr>"
  using quiet fin sub s2
proof (induction es arbitrary: st1 st2)
  case Nil
  have "added (ingest_loop e1 db st1 []) = added st1 + 0
           \<and> skipped (ingest_loop e1 db st1 []) = skipped st1 + 0
           \<and> errors (ingest_loop e1 db st1 []) = errors st1 + length ([]::string list)
           \<and> error_messages (ingest_loop e1 db st1 []) = error_messages st1 @ []
           \<and> ingest_loop e2 D st2 [] =
               st2\<lparr>skipped := skipped st2 + (0 + 0), errors := errors st2 + length ([]::string list),
                   error_messages := error_messages st2 @ []\<rparr>"
    by simp
  then show ?case by blast
next
  case (Cons n es)
  let ?t1 = "process_entry e1 db st1 n" and ?t2 = "process_entry e2 D st2 n"
  from Cons.prems(2) have ft: "flushable (ingest_loop e1 db ?t1 es)" by simp
  then have ft1: "flushable ?t1" by (rule flushable_loop_start)
  then have fs1: "flushable st1" using not_flushable_step by blast
  have fs2: "flushable st2" using Cons.prems(4,5) by (simp add: flushable_def)
  have id2: "flush_rows st2 = st2" using Cons.prems(4) by (rule flush_rows_id)
  have sr2: "session_rows st2 = flushed st2" using Cons.prems(4) by (simp add: session_rows_def)
  from session_rows_loop[OF ft] obtain S' where S':
    "session_rows (ingest_loop e1 db ?t1 es) = session_rows ?t1 @ S'" by blast
  have sub1: "filename ` set (db @ session_rows ?t1) \<subseteq> filename ` set D"
    using Cons.prems(3) S' by auto
  from session_rows_step[OF fs1, of e1 db n] obtain S0 where S0:
    "session_rows ?t1 = session_rows st1 @ S0" by blast
  have sub0: "filename ` set (db @ session_rows st1) \<subseteq> filename ` set D"
    using sub1 S0 by auto
  have q: "first_fault e1 n = None" "first_fault e2 n = None" using Cons.prems(1) by simp_all
  note p1 = process_entry_flushable[OF fs1, of e1 db n]
  note p2 = process_entry_flushable[OF fs2, of e2 D n, unfolded id2 sr2]
  have step: "\<exists>a0 s0 ms0.
           added ?t1 = added st1 + a0 \<and> skipped ?t1 = skipped st1 + s0
           \<and> errors ?t1 = errors st1 + length ms0
           \<and> error_messages ?t1 = error_messages st1 @ ms0
           \<and> ?t2 = st2\<lparr>skipped := skipped st2 + (a0 + s0), errors := errors st2 + length ms0,
                   error_messages := error_messages st2 @ ms0\<rparr>"
  proof (cases "\<not> endswith n ''.txt'' \<or> parse_filename n = None")
    case True
    then have "added ?t1 = added st1 + 0 \<and> skipped ?t1 = skipped st1 + 0
           \<and> errors ?t1 = errors st1 + length ([]::string list)
           \<and> error_messages ?t1 = error_messages st1 @ []
           \<and> ?t2 = st2\<lparr>skipped := skipped st2 + (0 + 0), errors := errors st2 + length ([]::string list),
                   error_messages := error_messages st2 @ []\<rparr>"
      by (simp add: process_entry_ignored)
    then show ?thesis by blast
  next
    case False
    show ?thesis
    proof (cases "read_file e1 n")
      case (Inl ex)
      then have "added ?t1 = added st1 + 0 \<and> skipped ?t1 = skipped st1 + 0
           \<and> errors ?t1 = errors st1 + length [error_message n ex]
           \<and> error_messages ?t1 = error_messages st1 @ [error_message n ex]
           \<and> ?t2 = st2\<lparr>skipped := skipped st2 + (0 + 0), errors := errors st2 + length [error_message n ex],
                   error_messages := error_messages st2 @ [error_message n ex]\<rparr>"
        using False by (simp add: p1 p2 env(1) count_error_def)
      then show ?thesis by blast
    next
      case (Inr tx)
      show ?thesis
      proof (cases "n \<in> filename ` set (db @ session_rows st1)")
        case True
        with sub0 have "n \<in> filename ` set D" by blast
        then have "n \<in> filename ` set (D @ flushed st2)" by auto
        then have "added ?t1 = added st1 + 0 \<and> skipped ?t1 = skipped st1 + 1
           \<and> errors ?t1 = errors st1 + length ([]::string list)
           \<and> error_messages ?t1 = error_messages st1 @ []
           \<and> ?t2 = st2\<lparr>skipped := skipped st2 + (0 + 1), errors := errors st2 + length ([]::string list),
                   error_messages := error_messages st2 @ []\<rparr>"
          using False Inr True q by (simp add: p1 p2 env(1))
        then show ?thesis by blast
      next
        case nex: False
        show ?thesis
        proof (cases "built_row e1 n")
          case (Inl ex)
          from nex have "n \<notin> filename ` set db" by auto
          with inv Inl have "n \<notin> filename ` set D" by auto
          with Cons.prems(6) have "n \<notin> filename ` set (D @ flushed st2)" by auto
          then have "added ?t1 = added st1 + 0 \<and> skipped ?t1 = skipped st1 + 0
             \<and> errors ?t1 = errors st1 + length [error_message n ex]
             \<and> error_messages ?t1 = error_messages st1 @ [error_message n ex]
             \<and> ?t2 = st2\<lparr>skipped := skipped st2 + (0 + 0), errors := errors st2 + length [error_message n ex],
                     error_messages := error_messages st2 @ [error_message n ex]\<rparr>"
            using False Inr nex q Inl built_row_env[OF env, of n]
            by (simp add: p1 p2 env(1) count_error_def)
          then show ?thesis by blast
        next
          case r: (Inr r)
          have t1: "?t1 = (flush_rows st1)\<lparr>pending := [r], added := added st1 + 1\<rparr>"
            using False Inr nex q r by (auto simp add: p1)
          then have "session_rows ?t1 = session_rows st1 @ [r]"
            by (simp add: session_rows_def)
          with sub1 built_row_filename[OF r] have "n \<in> filename ` set D" by auto
          then have "n \<in> filename ` set (D @ flushed st2)" by auto
          then have "added ?t1 = added st1 + 1 \<and> skipped ?t1 = skipped st1 + 0
             \<and> errors ?t1 = errors st1 + length ([]::string list)
             \<and> error_messages ?t1 = error_messages st1 @ []
             \<and> ?t2 = st2\<lparr>skipped := skipped st2 + (1 + 0), errors := errors st2 + length ([]::string list),
                     error_messages := error_messages st2 @ []\<rparr>"
            using False Inr q by (simp add: t1 p2 env(1))
          then show ?thesis by blast
        qed
      qed
    qed
  qed
  then obtain a0 s0 ms0 where st:
    "added ?t1 = added st1 + a0" "skipped ?t1 = skipped st1 + s0"
    "errors ?t1 = errors st1 + length ms0" "error_messages ?t1 = error_messages st1 @ ms0"
    "?t2 = st2\<lparr>skipped := skipped st2 + (a0 + s0), errors := errors st2 + length ms0,
                   error_messages := error_messages st2 @ ms0\<rparr>"
    by blast
  have f2: "skipped ?t2 = skipped st2 + (a0 + s0)" "errors ?t2 = errors st2 + length ms0"
    "error_messages ?t2 = error_messages st2 @ ms0" "pending ?t2 = pending st2"
    "broken ?t2 = broken st2" "flushed ?t2 = flushed st2"
    by (subst st(5), simp)+
  have q': "\<forall>x\<in>set es. first_fault e1 x = None \<and> first_fault e2 x = None"
    using Cons.prems(1) by simp
  have sub': "filename ` set (db @ session_rows (ingest_loop e1 db ?t1 es)) \<subseteq> filename ` set D"
    using Cons.prems(3) by simp
  have s2': "pending ?t2 = []" "\<not> broken ?t2" "filename ` set (flushed ?t2) \<subseteq> filename ` set D"
    using f2(4,5,6) Cons.prems(4,5,6) by simp_all
  from Cons.IH[OF q' ft sub' s2'] obtain a1 s1 ms1 where ih:
    "added (ingest_loop e1 db ?t1 es) = added ?t1 + a1"
    "skipped (ingest_loop e1 db ?t1 es) = skipped ?t1 + s1"
    "errors (ingest_loop e1 db ?t1 es) = errors ?t1 + length ms1"
    "error_messages (ingest_loop e1 db ?t1 es) = error_messages ?t1 @ ms1"
    "ingest_loop e2 D ?t2 es =
       ?t2\<lparr>skipped := skipped ?t2 + (a1 + s1), errors := errors ?t2 + length ms1,
           error_messages := error_messages ?t2 @ ms1\<rparr>"
    by blast
  have r2: "ingest_loop e2 D st2 (n # es) =
       st2\<lparr>skipped := skipped st2 + ((a0 + a1) + (s0 + s1)), errors := errors st2 + length (ms0 @ ms1),
           error_messages := error_messages st2 @ (ms0 @ ms1)\<rparr>"
    unfolding ingest_loop.simps ih(5) f2 by (subst st(5)) simp
  have "added (ingest_loop e1 db st1 (n # es)) = added st1 + (a0 + a1)
        \<and> skipped (ingest_loop e1 db st1 (n # es)) = skipped st1 + (s0 + s1)
        \<and> errors (ingest_loop e1 db st1 (n # es)) = errors st1 + length (ms0 @ ms1)
        \<and> error_messages (ingest_loop e1 db st1 (n # es)) = error_messages st1 @ (ms0 @ ms1)"
    using ih(1-4) st(1-4) by simp
  with r2 show ?case by blast
qed

section \<open>The decimal value of a digit string\<close>

text \<open>
  On a string of digits, \<open>int\<close> gives the value of the positional notation.
\<close>

lemma spec_digit_value:
  assumes "is_digit c"
  shows "int (spec_digit c) = int (of_char c - 48)"
proof -
  from assms have "c = CHR ''0'' \<or> c = CHR ''1'' \<or> c = CHR ''2'' \<or> c = CHR ''3'' \<or> c = CHR ''4''
      \<or> c = CHR ''5'' \<or> c = CHR ''6'' \<or> c = CHR ''7'' \<or> c = CHR ''8'' \<or> c = CHR ''9''"
    by (simp add: is_digit_def)
  then show ?thesis
    by (elim disjE) (simp_all add: spec_digit_def)
qed

lemma int_of_digits_snoc:
  "int_of_digits (ds @ [c]) = 10 * int_of_digits ds + int (of_char c - 48)"
  by (simp add: int_of_digits_def)

lemma spec_decimal_snoc:
  "spec_decimal (ds @ [c]) = 10 * spec_decimal ds + int (spec_digit c)"
proof -
  let ?n = "length ds"
  let ?f = "\<lambda>i. int (spec_digit ((ds @ [c]) ! i)) * 10 ^ (Suc ?n - Suc i)"
  let ?g = "\<lambda>i. int (spec_digit (ds ! i)) * 10 ^ (?n - Suc i)"
  have A: "map ?f [0..<?n] = map (\<lambda>i. 10 * ?g i) [0..<?n]"
  proof (rule map_cong[OF refl])
    fix i assume "i \<in> set [0..<?n]"
    then have i: "i < ?n" by simp
    then have "Suc ?n - Suc i = Suc (?n - Suc i)" by simp
    with i show "?f i = 10 * ?g i"
      by (simp add: nth_append)
  qed
  have "sum_list (map ?f [0..<?n]) = sum_list (map (\<lambda>i. 10 * ?g i) [0..<?n])"
    by (simp only: A)
  also have "\<dots> = 10 * sum_list (map ?g [0..<?n])"
    by (rule sum_list_const_mult)
  also have "sum_list (map ?g [0..<?n]) = spec_decimal ds"
    by (simp only: spec_decimal_def)
  finally have B: "sum_list (map ?f [0..<?n]) = 10 * spec_decimal ds" .
  have "spec_decimal (ds @ [c]) = sum_list (map ?f [0..<Suc ?n])"
    by (simp only: spec_decimal_def length_append_singleton)
  also have "\<dots> = sum_list (map ?f [0..<?n]) + ?f ?n"
    by simp
  also have "?f ?n = int (spec_digit c)" by simp
  finally show ?thesis using B by simp
qed

lemma int_of_digits_spec: "list_all is_digit ds \<Longrightarrow> int_of_digits ds = spec_decimal ds"
proof (induction ds rule: rev_induct)
  case Nil
  then show ?case by (simp add: int_of_digits_def spec_decimal_def)
next
  case (snoc c ds)
  then show ?case
    by (simp add: int_of_digits_snoc spec_decimal_snoc spec_digit_value)
qed

lemma spec_decimal_nonneg: "0 \<le> spec_decimal ds"
  by (auto simp: spec_decimal_def intro!: sum_list_nonneg)

lemma py_int_decimal:
  "list_all is_digit d \<Longrightarrow> d \<noteq> [] \<Longrightarrow> length d \<le> 4300 \<Longrightarrow> py_int d = Inr (spec_decimal d)"
  using py_int_digits[of d] int_of_digits_spec[of d] by simp


section \<open>The whole run\<close>

lemma ingest_body_eq:
  "ingest_body a s n msgs = ingest_body a' s' n' msgs' \<longleftrightarrow>
     a = a' \<and> s = s' \<and> n = n' \<and> msgs = msgs'"
proof -
  have "inj JStr" by (simp add: inj_def)
  then have "map JStr msgs = map JStr msgs' \<longleftrightarrow> msgs = msgs'"
    by (rule inj_map_eq_map)
  then show ?thesis by (auto simp: ingest_body_def)
qed

lemma process_files_ok:
  assumes "process_files e (Listing ns) db = ((body, 200), db1)"
  shows "flushable (ingest_loop e db ingest_start ns) \<and> commit_fault e = None
         \<and> body = ingest_body (added (ingest_loop e db ingest_start ns))
                    (skipped (ingest_loop e db ingest_start ns))
                    (errors (ingest_loop e db ingest_start ns))
                    (error_messages (ingest_loop e db ingest_start ns))
         \<and> db1 = db @ session_rows (ingest_loop e db ingest_start ns)"
proof (cases "flushable (ingest_loop e db ingest_start ns)")
  case False
  from autoflush_not_flushable[OF False] obtain ex st' where
    "autoflush (ingest_loop e db ingest_start ns) = (Some ex, st')" by blast
  with assms show ?thesis
    by (simp add: process_files_def process_try_def database_error_def unexpected_error_def
        split: if_splits)
next
  case True
  with assms show ?thesis
    by (cases "commit_fault e")
       (simp_all add: process_files_def process_try_def autoflush_flushable database_error_def
          unexpected_error_def split: if_splits)
qed

lemma process_files_run:
  assumes "flushable (ingest_loop e db ingest_start ns)" "commit_fault e = None"
  shows "process_files e (Listing ns) db =
           ((ingest_body (added (ingest_loop e db ingest_start ns))
                    (skipped (ingest_loop e db ingest_start ns))
                    (errors (ingest_loop e db ingest_start ns))
                    (error_messages (ingest_loop e db ingest_start ns)), 200),
            db @ session_rows (ingest_loop e db ingest_start ns))"
  using assms by (simp add: process_files_def process_try_def autoflush_flushable)

lemma skipped_fresh:
  assumes "flushable (ingest_loop e db st es)" "distinct es"
    "set es \<inter> filename ` set (db @ session_rows st) = {}"
  shows "skipped (ingest_loop e db st es) = skipped st"
  using assms
proof (induction es arbitrary: st)
  case Nil
  then show ?case by simp
next
  case (Cons n es)
  let ?t = "process_entry e db st n"
  from Cons.prems(1) have ft: "flushable (ingest_loop e db ?t es)" by simp
  then have "flushable ?t" by (rule flushable_loop_start)
  then have fs: "flushable st" using not_flushable_step by blast
  from Cons.prems(3) have new: "n \<notin> filename ` set (db @ session_rows st)" by auto
  have sk: "skipped ?t = skipped st"
    using new
    by (simp add: process_entry_flushable[OF fs] split: sum.splits option.splits)
  from session_rows_step[OF fs, of e db n] obtain S where S:
    "session_rows ?t = session_rows st @ S"
    "S = [] \<or> (\<exists>r. S = [r] \<and> built_row e n = Inr r \<and> filename r = n
                            \<and> n \<notin> filename ` set (db @ session_rows st))" by blast
  have "filename ` set (db @ session_rows ?t) \<subseteq> insert n (filename ` set (db @ session_rows st))"
    using S by auto
  moreover have "n \<notin> set es" "distinct es" using Cons.prems(2) by auto
  ultimately have "set es \<inter> filename ` set (db @ session_rows ?t) = {}"
    using Cons.prems(3) by auto
  from Cons.IH[OF ft \<open>distinct es\<close> this] sk show ?case by simp
qed


section \<open>Worked examples of ingestion\<close>

lemma example_parse_v3:
  "parse_filename ''Pandora1s2_CF_v3d20230101.txt'' = Some [''1'', ''2'', ''3'', ''20230101'']"
  by (simp add: parse_filename_def filename_pattern_def is_digit_def)

lemma example_parse_v4:
  "parse_filename ''Pandora1s2_CF_v4d20230101.txt'' = Some [''1'', ''2'', ''4'', ''20230101'']"
  by (simp add: parse_filename_def filename_pattern_def is_digit_def)

lemma example_parse_trailing:
  "parse_filename ''Pandora1s2_CF_v3d20230101.txt.txt'' = Some [''1'', ''2'', ''3'', ''20230101'']"
  by (simp add: parse_filename_def filename_pattern_def is_digit_def)

lemma example_endswith:
  "endswith ''Pandora1s2_CF_v3d20230101.txt'' ''.txt''"
  "endswith ''Pandora1s2_CF_v4d20230101.txt'' ''.txt''"
  "endswith ''Pandora1s2_CF_v3d20230101.txt.txt'' ''.txt''"
  by (simp_all add: endswith_def)

lemma example_int: "py_int ''3'' = Inr 3" "py_int ''4'' = Inr 4"
  using py_int_digits[of "''3''"] py_int_digits[of "''4''"]
  by (simp_all add: is_digit_def int_of_digits_def)

lemma example_extract: "extract_file_details ''a -> 1'' = Inr [(''a'', ''1'')]"
  by (simp add: extract_file_details_def splitlines_def is_linebreak_def extract_line_def
      py_strip_def is_space_def)

lemma example_env_fields:
  "read_file example_env n = Inr ''a -> 1''" "first_fault example_env n = None"
  "commit_fault example_env = None" "bson_dumps example_env = example_dumps"
  by (simp_all add: example_env_def)

lemma example_dumps_a1: "example_dumps [(''a'', ''1'')] = Inr ''a->1\<newline>''"
  by (simp add: example_dumps_def)

lemmas example_simps =
  example_parse_v3 example_parse_v4 example_parse_trailing example_endswith example_int
  example_extract example_env_fields example_dumps_a1

lemmas ingest_defs =
  process_files_def process_try_def autoflush_def flush_rows_def session_first_def
  try_entry_def new_data_def count_error_def process_entry_def query_first_def
  ingest_start_def sqlite_integer_def ingest_body_def error_message_def


lemma endswith_append: "endswith (xs @ suf) suf"
  by (simp add: endswith_def)

lemma ingest_start_fields:
  "session_rows ingest_start = []" "pending ingest_start = []" "\<not> broken ingest_start"
  "flushed ingest_start = []" "added ingest_start = 0" "skipped ingest_start = 0"
  "errors ingest_start = 0" "error_messages ingest_start = []" "flushable ingest_start"
  "flush_rows ingest_start = ingest_start"
  by (simp_all add: ingest_start_def session_rows_def flushable_def flush_rows_def)


lemma example_overflow:
  "process_files example_env (Listing [''Pandora1s2_CF_v9223372036854775808d20230101.txt'']) []
   = ((JObj [(''error'', JStr ''An unexpected error occurred''),
             (''details'', JStr ''Python int too large to convert to SQLite INTEGER'')], 500), [])"
proof -
  have p: "parse_filename ''Pandora1s2_CF_v9223372036854775808d20230101.txt''
             = Some [''1'', ''2'', ''9223372036854775808'', ''20230101'']"
    by (simp add: parse_filename_def filename_pattern_def is_digit_def)
  have i: "py_int ''9223372036854775808'' = Inr 9223372036854775808"
    using py_int_digits[of "''9223372036854775808''"]
    by (simp add: is_digit_def int_of_digits_def)
  have e: "endswith ''Pandora1s2_CF_v9223372036854775808d20230101.txt'' ''.txt''"
    by (simp add: endswith_def)
  show ?thesis
    by (simp add: ingest_defs example_simps p i e unexpected_error_def)
qed

section \<open>Ingestion and the unanchored pattern\<close>

text \<open>
  Claim C6. The specification has a \<open>.txt\<close> entry whose name fails the pattern skipped
  silently and counted in none of \<open>added\<close>, \<open>skipped\<close> and \<open>errors\<close>. The loop decides
  with \<open>parse_filename\<close>, whose pattern is not anchored at the end (claim C1). The entry
  \<open>Pandora1s2_CF_v3d20230101.txt.txt\<close> ends in \<open>.txt\<close> and is not of the specified form;
  the round builds a row for it and counts it as added, and a run over a directory that
  holds just this entry answers \<open>added = 1\<close> and stores the row.
\<close>

theorem ingest_accepts_trailing:
  "endswith ''Pandora1s2_CF_v3d20230101.txt.txt'' ''.txt''
   \<and> \<not> spec_exact_match ''Pandora1s2_CF_v3d20230101.txt.txt''
   \<and> process_entry example_env [] ingest_start ''Pandora1s2_CF_v3d20230101.txt.txt''
      = ingest_start\<lparr>pending :=
            [\<lparr>filename = ''Pandora1s2_CF_v3d20230101.txt.txt'', pandora_id = ''1'',
              spectrometer_id = ''2'', version = 3, validity_date = ''20230101'',
              content = ''a->1\<newline>''\<rparr>],
          added := 1\<rparr>
   \<and> process_files example_env (Listing [''Pandora1s2_CF_v3d20230101.txt.txt'']) []
      = ((JObj [(''added'', JInt 1), (''skipped'', JInt 0), (''errors'', JInt 0),
                (''error_messages'', JArr [])], 200),
         [\<lparr>filename = ''Pandora1s2_CF_v3d20230101.txt.txt'', pandora_id = ''1'',
           spectrometer_id = ''2'', version = 3, validity_date = ''20230101'',
           content = ''a->1\<newline>''\<rparr>])"
proof -
  have 1: "\<not> spec_exact_match ''Pandora1s2_CF_v3d20230101.txt.txt''"
    by (simp add: spec_exact_match_def filename_pattern_def is_digit_def)
  have 2: "process_entry example_env [] ingest_start ''Pandora1s2_CF_v3d20230101.txt.txt''
      = ingest_start\<lparr>pending :=
            [\<lparr>filename = ''Pandora1s2_CF_v3d20230101.txt.txt'', pandora_id = ''1'',
              spectrometer_id = ''2'', version = 3, validity_date = ''20230101'',
              content = ''a->1\<newline>''\<rparr>],
          added := 1\<rparr>"
    by (simp add: ingest_defs example_simps)
  have 3: "process_files example_env (Listing [''Pandora1s2_CF_v3d20230101.txt.txt'']) []
      = ((JObj [(''added'', JInt 1), (''skipped'', JInt 0), (''errors'', JInt 0),
                (''error_messages'', JArr [])], 200),
         [\<lparr>filename = ''Pandora1s2_CF_v3d20230101.txt.txt'', pandora_id = ''1'',
           spectrometer_id = ''2'', version = 3, validity_date = ''20230101'',
           content = ''a->1\<newline>''\<rparr>])"
    by (simp add: ingest_defs example_simps)
  from example_endswith(3) 1 2 3 show ?thesis by blast
qed


section \<open>The groups of a matching filename\<close>

text \<open>
  The specification gives \<open>("1", "2", 3, "20230101")\<close> for
  \<open>Pandora1s2_CF_v3d20230101.txt\<close>. The tuple \<open>parse_filename\<close> returns is
  \<open>match.groups()\<close>: its third component is the string \<open>"3"\<close>, not the integer.
\<close>

theorem parse_filename_groups_counterexample:
  "map_option groups_value (parse_filename ''Pandora1s2_CF_v3d20230101.txt'')
     \<noteq> Some [PStr ''1'', PStr ''2'', PInt 3, PStr ''20230101'']"
  by (simp add: parse_filename_def filename_pattern_def is_digit_def groups_value_def)

text \<open>
  Claim C9, amended. For every filename of the form
  \<open>Pandora<digits>s<digits>_CF_v<digits>d<8 digits>.txt\<close> the Filename Parser returns
  the four digit substrings, all of them as strings. The version becomes an integer in
  the ingestion loop, which applies \<open>int\<close> to the third substring when it builds the
  record: a run over a directory that holds this one file, new to the table, readable and
  stored without a fault, answers \<open>added = 1\<close> and appends the record whose
  \<open>pandora_id\<close>, \<open>spectrometer_id\<close> and \<open>validity_date\<close> are the substrings and
  whose \<open>version\<close> is the decimal value of the version digits (at most 4300 digits, and
  a value below \<open>2^63\<close>).
\<close>

theorem parse_filename_groups:
  assumes "list_all is_digit d1" "d1 \<noteq> []" "list_all is_digit d2" "d2 \<noteq> []"
    "list_all is_digit d3" "d3 \<noteq> []" "list_all is_digit d4" "length d4 = 8"
  shows "parse_filename (''Pandora'' @ d1 @ ''s'' @ d2 @ ''_CF_v'' @ d3 @ ''d'' @ d4 @ ''.txt'')
           = Some [d1, d2, d3, d4]
         \<and> (length d3 \<le> 4300 \<and> spec_decimal d3 < 2 ^ 63
              \<and> read_file e (''Pandora'' @ d1 @ ''s'' @ d2 @ ''_CF_v'' @ d3 @ ''d'' @ d4 @ ''.txt'') = Inr tx
              \<and> extract_file_details tx = Inr fd \<and> bson_dumps e fd = Inr b
              \<and> first_fault e (''Pandora'' @ d1 @ ''s'' @ d2 @ ''_CF_v'' @ d3 @ ''d'' @ d4 @ ''.txt'') = None
              \<and> commit_fault e = None
              \<and> ''Pandora'' @ d1 @ ''s'' @ d2 @ ''_CF_v'' @ d3 @ ''d'' @ d4 @ ''.txt'' \<notin> filename ` set db
            \<longrightarrow>
            process_files e
              (Listing [''Pandora'' @ d1 @ ''s'' @ d2 @ ''_CF_v'' @ d3 @ ''d'' @ d4 @ ''.txt'']) db
            = ((JObj [(''added'', JInt 1), (''skipped'', JInt 0), (''errors'', JInt 0),
                      (''error_messages'', JArr [])], 200),
               db @ [\<lparr>filename = ''Pandora'' @ d1 @ ''s'' @ d2 @ ''_CF_v'' @ d3 @ ''d'' @ d4 @ ''.txt'',
                       pandora_id = d1, spectrometer_id = d2, version = spec_decimal d3,
                       validity_date = d4, content = b\<rparr>]))"
proof -
  define name where "name = ''Pandora'' @ d1 @ ''s'' @ d2 @ ''_CF_v'' @ d3 @ ''d'' @ d4 @ ''.txt''"
  have p: "parse_filename name = Some [d1, d2, d3, d4]"
    using parse_filename_complete[OF assms, of "[]"] by (simp add: name_def)
  have ends: "endswith name ''.txt''"
    using endswith_append[of "''Pandora'' @ d1 @ ''s'' @ d2 @ ''_CF_v'' @ d3 @ ''d'' @ d4" "''.txt''"]
    by (simp add: name_def)
  have run: "process_files e (Listing [name]) db
            = ((JObj [(''added'', JInt 1), (''skipped'', JInt 0), (''errors'', JInt 0),
                      (''error_messages'', JArr [])], 200),
               db @ [\<lparr>filename = name, pandora_id = d1, spectrometer_id = d2,
                       version = spec_decimal d3, validity_date = d4, content = b\<rparr>])"
    if h: "length d3 \<le> 4300" "spec_decimal d3 < 2 ^ 63" "read_file e name = Inr tx"
      "extract_file_details tx = Inr fd" "bson_dumps e fd = Inr b" "first_fault e name = None"
      "commit_fault e = None" "name \<notin> filename ` set db"
  proof -
    let ?r = "\<lparr>filename = name, pandora_id = d1, spectrometer_id = d2,
                version = spec_decimal d3, validity_date = d4, content = b\<rparr>"
    have int: "py_int d3 = Inr (spec_decimal d3)"
      using py_int_decimal[OF assms(5,6) h(1)] .
    have br: "built_row e name = Inr ?r"
      by (simp add: built_row_def p h(3,4,5) new_data_def int)
    have new: "name \<notin> filename ` set (db @ session_rows ingest_start)"
      using h(8) by (simp add: ingest_start_fields)
    have step: "process_entry e db ingest_start name = ingest_start\<lparr>pending := [?r], added := 1\<rparr>"
      using ends p h(3,6) new br
      by (simp add: process_entry_flushable[OF ingest_start_fields(9)] ingest_start_fields)
    have loop: "ingest_loop e db ingest_start [name] = ingest_start\<lparr>pending := [?r], added := 1\<rparr>"
      by (simp add: step)
    have ok: "sqlite_integer (spec_decimal d3)"
      using spec_decimal_nonneg[of d3] h(2) by (simp add: sqlite_integer_def)
    have fl: "flushable (ingest_loop e db ingest_start [name])"
      unfolding loop using ok by (simp add: flushable_def ingest_start_def)
    show ?thesis
      using process_files_run[OF fl h(7)]
      unfolding loop by (simp add: ingest_body_def ingest_start_def session_rows_def)
  qed
  from p run show ?thesis unfolding name_def by blast
qed

theorem parse_filename_groups_witness:
  "list_all is_digit ''1'' \<and> list_all is_digit ''2'' \<and> list_all is_digit ''3''
   \<and> list_all is_digit ''20230101'' \<and> length ''20230101'' = 8
   \<and> length ''3'' \<le> 4300 \<and> spec_decimal ''3'' = 3 \<and> (3::int) < 2 ^ 63
   \<and> read_file example_env ''Pandora1s2_CF_v3d20230101.txt'' = Inr ''a -> 1''
   \<and> extract_file_details ''a -> 1'' = Inr [(''a'', ''1'')]
   \<and> bson_dumps example_env [(''a'', ''1'')] = Inr ''a->1\<newline>''
   \<and> first_fault example_env ''Pandora1s2_CF_v3d20230101.txt'' = None
   \<and> commit_fault example_env = None
   \<and> ''Pandora1s2_CF_v3d20230101.txt'' \<notin> filename ` set ([]::row list)
   \<and> parse_filename ''Pandora1s2_CF_v3d20230101.txt'' = Some [''1'', ''2'', ''3'', ''20230101'']
   \<and> process_files example_env (Listing [''Pandora1s2_CF_v3d20230101.txt'']) []
       = ((JObj [(''added'', JInt 1), (''skipped'', JInt 0), (''errors'', JInt 0),
                 (''error_messages'', JArr [])], 200),
          [\<lparr>filename = ''Pandora1s2_CF_v3d20230101.txt'', pandora_id = ''1'',
            spectrometer_id = ''2'', version = 3, validity_date = ''20230101'',
            content = ''a->1\<newline>''\<rparr>])"
proof -
  have d: "list_all is_digit ''1''" "''1'' \<noteq> []" "list_all is_digit ''2''" "''2'' \<noteq> []"
    "list_all is_digit ''3''" "''3'' \<noteq> []" "list_all is_digit ''20230101''" "length ''20230101'' = 8"
    by (simp_all add: is_digit_def)
  have v: "spec_decimal ''3'' = 3"
    by (simp add: spec_decimal_def spec_digit_def)
  have h: "length ''3'' \<le> 4300" "(3::int) < 2 ^ 63"
    "read_file example_env ''Pandora1s2_CF_v3d20230101.txt'' = Inr ''a -> 1''"
    "extract_file_details ''a -> 1'' = Inr [(''a'', ''1'')]"
    "bson_dumps example_env [(''a'', ''1'')] = Inr ''a->1\<newline>''"
    "first_fault example_env ''Pandora1s2_CF_v3d20230101.txt'' = None"
    "commit_fault example_env = None"
    "''Pandora1s2_CF_v3d20230101.txt'' \<notin> filename ` set ([]::row list)"
    by (simp_all add: example_simps)
  from parse_filename_groups[OF d, where e=example_env and tx="''a -> 1''"
      and fd="[(''a'', ''1'')]" and b="''a->1\<newline>''" and db="[]"] d v h
  show ?thesis by simp
qed

section \<open>Running the ingestion twice\<close>

text \<open>
  Two runs over two files. With a table that already holds a row for one of them, the
  first run adds one record and skips one, and the second run skips two, not one. With an
  empty table and a query that fails for one file in the first run only, the first run
  adds one record and the second run adds the other.
\<close>

theorem ingest_twice_counterexample:
  "process_files example_env
     (Listing [''Pandora1s2_CF_v3d20230101.txt'', ''Pandora1s2_CF_v4d20230101.txt''])
     [example_row ''Pandora1s2_CF_v3d20230101.txt'']
   = ((ingest_body 1 1 0 [], 200),
      [example_row ''Pandora1s2_CF_v3d20230101.txt'',
       \<lparr>filename = ''Pandora1s2_CF_v4d20230101.txt'', pandora_id = ''1'', spectrometer_id = ''2'',
        version = 4, validity_date = ''20230101'', content = ''a->1\<newline>''\<rparr>])
   \<and> process_files example_env
     (Listing [''Pandora1s2_CF_v3d20230101.txt'', ''Pandora1s2_CF_v4d20230101.txt''])
     [example_row ''Pandora1s2_CF_v3d20230101.txt'',
       \<lparr>filename = ''Pandora1s2_CF_v4d20230101.txt'', pandora_id = ''1'', spectrometer_id = ''2'',
        version = 4, validity_date = ''20230101'', content = ''a->1\<newline>''\<rparr>]
   = ((ingest_body 0 2 0 [], 200),
      [example_row ''Pandora1s2_CF_v3d20230101.txt'',
       \<lparr>filename = ''Pandora1s2_CF_v4d20230101.txt'', pandora_id = ''1'', spectrometer_id = ''2'',
        version = 4, validity_date = ''20230101'', content = ''a->1\<newline>''\<rparr>])
   \<and> ingest_body 0 2 0 [] \<noteq> ingest_body 0 1 0 []
   \<and> process_files
     (example_env\<lparr>first_fault := \<lambda>n. if n = ''Pandora1s2_CF_v3d20230101.txt''
                                      then Some (SQLAlchemyError ''database is locked'') else None\<rparr>)
     (Listing [''Pandora1s2_CF_v3d20230101.txt'', ''Pandora1s2_CF_v4d20230101.txt'']) []
   = ((ingest_body 1 0 1
         [''Error processing file Pandora1s2_CF_v3d20230101.txt: database is locked''], 200),
      [\<lparr>filename = ''Pandora1s2_CF_v4d20230101.txt'', pandora_id = ''1'', spectrometer_id = ''2'',
        version = 4, validity_date = ''20230101'', content = ''a->1\<newline>''\<rparr>])
   \<and> process_files example_env
     (Listing [''Pandora1s2_CF_v3d20230101.txt'', ''Pandora1s2_CF_v4d20230101.txt''])
     [\<lparr>filename = ''Pandora1s2_CF_v4d20230101.txt'', pandora_id = ''1'', spectrometer_id = ''2'',
        version = 4, validity_date = ''20230101'', content = ''a->1\<newline>''\<rparr>]
   = ((ingest_body 1 1 0 [], 200),
      [\<lparr>filename = ''Pandora1s2_CF_v4d20230101.txt'', pandora_id = ''1'', spectrometer_id = ''2'',
        version = 4, validity_date = ''20230101'', content = ''a->1\<newline>''\<rparr>,
       \<lparr>filename = ''Pandora1s2_CF_v3d20230101.txt'', pandora_id = ''1'', spectrometer_id = ''2'',
        version = 3, validity_date = ''20230101'', content = ''a->1\<newline>''\<rparr>])
   \<and> ingest_body 1 1 0 [] \<noteq> ingest_body 0 1 0 []"
proof -
  have e: "read_file (example_env\<lparr>first_fault := f\<rparr>) n = Inr ''a -> 1''"
    "first_fault (example_env\<lparr>first_fault := f\<rparr>) = f"
    "commit_fault (example_env\<lparr>first_fault := f\<rparr>) = None"
    "bson_dumps (example_env\<lparr>first_fault := f\<rparr>) = example_dumps" for f n
    by (simp_all add: example_env_def)
  show ?thesis
    by (simp add: ingest_defs example_simps example_row_def e)
qed


text \<open>
  Claim C8, amended. Let a run over a directory succeed, with \<open>a\<close> records added and
  \<open>s\<close> files skipped, and let a second run go over the same directory, with the same
  files behind the names, where no existence query fails in either run and the second
  commit does not fail. Then the second run succeeds with \<open>added = 0\<close> and
  \<open>skipped = a + s\<close> and leaves the table as it was. A table whose filenames are
  distinct keeps them distinct. The second run skips exactly the first run's \<open>a\<close> when
  the first run skipped nothing, as it does when the names of the directory are distinct
  and none of them has a row before the first run.
\<close>

theorem ingest_twice:
  assumes "process_files e1 (Listing ns) db = ((ingest_body a s n msgs, 200), db1)"
    and "read_file e2 = read_file e1" "bson_dumps e2 = bson_dumps e1"
    and "list_all (\<lambda>x. first_fault e1 x = None \<and> first_fault e2 x = None) ns"
    and "commit_fault e2 = None"
  shows "(\<exists>n' msgs'. process_files e2 (Listing ns) db1 = ((ingest_body 0 (a + s) n' msgs', 200), db1))
         \<and> (distinct (map filename db) \<longrightarrow> distinct (map filename db1))
         \<and> (distinct ns \<and> set ns \<inter> filename ` set db = {} \<longrightarrow> s = 0)"
proof -
  let ?L = "ingest_loop e1 db ingest_start ns"
  from process_files_ok[OF assms(1)] have ok: "flushable ?L"
    "ingest_body a s n msgs = ingest_body (added ?L) (skipped ?L) (errors ?L) (error_messages ?L)"
    "db1 = db @ session_rows ?L" by simp_all
  from ok(2) have cnt: "added ?L = a" "skipped ?L = s" by (simp_all add: ingest_body_eq)
  have start: "session_rows ingest_start = []" "pending ingest_start = []" "\<not> broken ingest_start"
    "flushed ingest_start = []" "added ingest_start = 0" "skipped ingest_start = 0"
    "errors ingest_start = 0" "error_messages ingest_start = []"
    by (simp_all add: ingest_start_def session_rows_def)
  from session_rows_loop[OF ok(1)] start(1) have stored:
    "\<forall>r\<in>set (session_rows ?L). built_row e1 (filename r) = Inr r" by auto
  have inv: "\<forall>m\<in>filename ` set db1. m \<in> filename ` set db \<or> \<not> isl (built_row e1 m)"
    using stored ok(3) by auto
  have quiet: "\<forall>x\<in>set ns. first_fault e1 x = None \<and> first_fault e2 x = None"
    using assms(4) by (simp add: list_all_iff)
  have sub: "filename ` set (db @ session_rows ?L) \<subseteq> filename ` set db1"
    using ok(3) by simp
  have s2: "filename ` set (flushed ingest_start) \<subseteq> filename ` set db1"
    by (simp add: start)
  from second_run[OF assms(2,3) inv quiet ok(1) sub start(2,3) s2] obtain a' s' ms where run:
    "added ?L = added ingest_start + a'" "skipped ?L = skipped ingest_start + s'"
    "ingest_loop e2 db1 ingest_start ns =
       ingest_start\<lparr>skipped := skipped ingest_start + (a' + s'),
             errors := errors ingest_start + length ms,
             error_messages := error_messages ingest_start @ ms\<rparr>"
    by blast
  from run(1,2) cnt start have as: "a' = a" "s' = s" by simp_all
  let ?M = "ingest_loop e2 db1 ingest_start ns"
  have second: "added ?M = 0" "skipped ?M = a + s" "errors ?M = length ms"
    "error_messages ?M = ms" "session_rows ?M = []" "flushable ?M"
    by (subst run(3), simp add: ingest_start_def session_rows_def flushable_def as)+
  have 1: "\<exists>n' msgs'. process_files e2 (Listing ns) db1 = ((ingest_body 0 (a + s) n' msgs', 200), db1)"
    using process_files_run[OF second(6) assms(5)] second(1-5) by auto
  have 2: "distinct (map filename db) \<longrightarrow> distinct (map filename db1)"
  proof
    assume "distinct (map filename db)"
    then have "distinct (map filename (db @ session_rows ingest_start))" by (simp add: start)
    from distinct_loop[OF ok(1) this] show "distinct (map filename db1)" using ok(3) by simp
  qed
  have 3: "distinct ns \<and> set ns \<inter> filename ` set db = {} \<longrightarrow> s = 0"
  proof
    assume h: "distinct ns \<and> set ns \<inter> filename ` set db = {}"
    then have "set ns \<inter> filename ` set (db @ session_rows ingest_start) = {}"
      by (simp add: start)
    with h ok(1) have "skipped ?L = skipped ingest_start" by (intro skipped_fresh) simp_all
    with cnt(2) show "s = 0" by (simp add: start)
  qed
  from 1 2 3 show ?thesis by blast
qed

theorem ingest_twice_witness:
  "process_files example_env
     (Listing [''Pandora1s2_CF_v3d20230101.txt'', ''Pandora1s2_CF_v4d20230101.txt'']) []
   = ((ingest_body 2 0 0 [], 200),
      [\<lparr>filename = ''Pandora1s2_CF_v3d20230101.txt'', pandora_id = ''1'', spectrometer_id = ''2'',
        version = 3, validity_date = ''20230101'', content = ''a->1\<newline>''\<rparr>,
       \<lparr>filename = ''Pandora1s2_CF_v4d20230101.txt'', pandora_id = ''1'', spectrometer_id = ''2'',
        version = 4, validity_date = ''20230101'', content = ''a->1\<newline>''\<rparr>])
   \<and> read_file example_env = read_file example_env
   \<and> bson_dumps example_env = bson_dumps example_env
   \<and> list_all (\<lambda>x. first_fault example_env x = None \<and> first_fault example_env x = None)
        [''Pandora1s2_CF_v3d20230101.txt'', ''Pandora1s2_CF_v4d20230101.txt'']
   \<and> commit_fault example_env = None
   \<and> distinct (map filename ([]::row list))
   \<and> distinct [''Pandora1s2_CF_v3d20230101.txt'', ''Pandora1s2_CF_v4d20230101.txt'']
   \<and> set [''Pandora1s2_CF_v3d20230101.txt'', ''Pandora1s2_CF_v4d20230101.txt'']
        \<inter> filename ` set ([]::row list) = {}
   \<and> (\<exists>n' msgs'. process_files example_env
          (Listing [''Pandora1s2_CF_v3d20230101.txt'', ''Pandora1s2_CF_v4d20230101.txt''])
          [\<lparr>filename = ''Pandora1s2_CF_v3d20230101.txt'', pandora_id = ''1'', spectrometer_id = ''2'',
            version = 3, validity_date = ''20230101'', content = ''a->1\<newline>''\<rparr>,
           \<lparr>filename = ''Pandora1s2_CF_v4d20230101.txt'', pandora_id = ''1'', spectrometer_id = ''2'',
            version = 4, validity_date = ''20230101'', content = ''a->1\<newline>''\<rparr>]
        = ((ingest_body 0 (2 + 0) n' msgs', 200),
           [\<lparr>filename = ''Pandora1s2_CF_v3d20230101.txt'', pandora_id = ''1'', spectrometer_id = ''2'',
             version = 3, validity_date = ''20230101'', content = ''a->1\<newline>''\<rparr>,
            \<lparr>filename = ''Pandora1s2_CF_v4d20230101.txt'', pandora_id = ''1'', spectrometer_id = ''2'',
             version = 4, validity_date = ''20230101'', content = ''a->1\<newline>''\<rparr>]))
   \<and> distinct (map filename
         [\<lparr>filename = ''Pandora1s2_CF_v3d20230101.txt'', pandora_id = ''1'', spectrometer_id = ''2'',
            version = 3, validity_date = ''20230101'', content = ''a->1\<newline>''\<rparr>,
          \<lparr>filename = ''Pandora1s2_CF_v4d20230101.txt'', pandora_id = ''1'', spectrometer_id = ''2'',
            version = 4, validity_date = ''20230101'', content = ''a->1\<newline>''\<rparr>])
   \<and> (0::nat) = 0
   \<and> process_files example_env
     (Listing [''Pandora1s2_CF_v3d20230101.txt'', ''Pandora1s2_CF_v4d20230101.txt''])
     [\<lparr>filename = ''Pandora1s2_CF_v3d20230101.txt'', pandora_id = ''1'', spectrometer_id = ''2'',
        version = 3, validity_date = ''20230101'', content = ''a->1\<newline>''\<rparr>,
      \<lparr>filename = ''Pandora1s2_CF_v4d20230101.txt'', pandora_id = ''1'', spectrometer_id = ''2'',
        version = 4, validity_date = ''20230101'', content = ''a->1\<newline>''\<rparr>]
   = ((ingest_body 0 2 0 [], 200),
      [\<lparr>filename = ''Pandora1s2_CF_v3d20230101.txt'', pandora_id = ''1'', spectrometer_id = ''2'',
        version = 3, validity_date = ''20230101'', content = ''a->1\<newline>''\<rparr>,
       \<lparr>filename = ''Pandora1s2_CF_v4d20230101.txt'', pandora_id = ''1'', spectrometer_id = ''2'',
        version = 4, validity_date = ''20230101'', content = ''a->1\<newline>''\<rparr>])"
proof -
  let ?ns = "[''Pandora1s2_CF_v3d20230101.txt'', ''Pandora1s2_CF_v4d20230101.txt'']"
  let ?db1 = "[\<lparr>filename = ''Pandora1s2_CF_v3d20230101.txt'', pandora_id = ''1'', spectrometer_id = ''2'',
        version = 3, validity_date = ''20230101'', content = ''a->1\<newline>''\<rparr>,
       \<lparr>filename = ''Pandora1s2_CF_v4d20230101.txt'', pandora_id = ''1'', spectrometer_id = ''2'',
        version = 4, validity_date = ''20230101'', content = ''a->1\<newline>''\<rparr>]"
  have first: "process_files example_env (Listing ?ns) [] = ((ingest_body 2 0 0 [], 200), ?db1)"
    by (simp add: ingest_defs example_simps)
  have second: "process_files example_env (Listing ?ns) ?db1 = ((ingest_body 0 2 0 [], 200), ?db1)"
    by (simp add: ingest_defs example_simps)
  have q: "list_all (\<lambda>x. first_fault example_env x = None \<and> first_fault example_env x = None) ?ns"
    by (simp add: example_simps)
  have c: "commit_fault example_env = None" by (simp add: example_simps)
  have h: "distinct (map filename ([]::row list))" "distinct ?ns"
    "set ?ns \<inter> filename ` set ([]::row list) = {}"
    by simp_all
  note w = ingest_twice[OF first refl refl q c]
  from w have w1: "\<exists>n' msgs'. process_files example_env (Listing ?ns) ?db1
        = ((ingest_body 0 (2 + 0) n' msgs', 200), ?db1)" by blast
  from w h(1) have w2: "distinct (map filename ?db1)" by blast
  show ?thesis
    by (intro conjI) (rule first, rule refl, rule refl, rule q, rule c, rule h(1), rule h(2),
        rule h(3), rule w1, rule w2, rule refl, rule second)
qed

end
